theory Spec2Isabelle
  imports Complex_Main "HOL-Library.Word" "HOL-Library.AList"
begin

unbundle bit_operations_syntax

section \<open>ChainEntry (chainentry.js)\<close>

text \<open>
  The chain entry of \<^verbatim>\<open>chainentry.js\<close>: the block header, the height and the
  cumulative chainwork. Hashes are the hex strings the code uses as keys; the
  chainwork is a bn.js big number, an unbounded integer.
\<close>

type_synonym hash = string

record ChainEntry =
  hash :: hash
  version :: nat
  prevBlock :: hash
  merkleRoot :: hash
  ts :: nat
  bits :: "32 word"
  nonce :: nat
  height :: int
  chainwork :: int

text \<open>\<^verbatim>\<open>ChainEntry.MAX_CHAINWORK = new BN(1).ushln(256)\<close>.\<close>

definition MAX_CHAINWORK :: int where
  "MAX_CHAINWORK = 2 ^ 256"

text \<open>
  Modelled from the spec: \<^verbatim>\<open>utils.fromCompact\<close> (utils.js) is not among the sources; the
  spec names it \<^verbatim>\<open>from_compact(bits)\<close>. This is Bitcoin's compact target encoding: the top
  byte is the exponent, bit 23 the sign, the low 23 bits the mantissa. The functions below
  take the decoder as a parameter \<open>fc\<close>, so that what is proved of them holds for any
  decoder; this one is used for concrete inputs only.
\<close>

definition fromCompact :: "32 word \<Rightarrow> int" where
  "fromCompact cmpct =
     (let exponent = unat (drop_bit 24 cmpct);
          negative = bit cmpct 23;
          mantissa = unat (cmpct AND 0x7fffff);
          num = (if exponent \<le> 3 then int (drop_bit (8 * (3 - exponent)) mantissa)
                 else int (push_bit (8 * (exponent - 3)) mantissa))
      in if cmpct = 0 then 0 else if negative then - num else num)"

text \<open>
  \<^verbatim>\<open>getProof\<close>: \<^verbatim>\<open>target.isNeg() || target.cmpn(0) === 0\<close> gives zero, otherwise
  \<^verbatim>\<open>MAX_CHAINWORK.div(target.iaddn(1))\<close>. Both operands of the division are positive,
  where bn.js's truncating \<^verbatim>\<open>div\<close> and HOL's \<open>div\<close> agree.
\<close>

definition getProof :: "(32 word \<Rightarrow> int) \<Rightarrow> ChainEntry \<Rightarrow> int" where
  "getProof fc e =
     (let target = fc (bits e)
      in if target < 0 \<or> target = 0 then 0
         else MAX_CHAINWORK div (target + 1))"

text \<open>\<^verbatim>\<open>getChainwork(prev)\<close>: the proof alone when there is no previous entry.\<close>

definition getChainwork :: "(32 word \<Rightarrow> int) \<Rightarrow> ChainEntry \<Rightarrow> ChainEntry option \<Rightarrow> int" where
  "getChainwork fc e prev =
     (let proof = getProof fc e
      in case prev of None \<Rightarrow> proof | Some p \<Rightarrow> proof + chainwork p)"

text \<open>
  \<^verbatim>\<open>fromBlock(block, prev)\<close> copies the header fields and stores
  \<^verbatim>\<open>this.getChainwork(prev)\<close>. The header is given here as an entry whose chainwork
  is still to be computed.
\<close>

definition fromBlock :: "(32 word \<Rightarrow> int) \<Rightarrow> ChainEntry \<Rightarrow> ChainEntry option \<Rightarrow> ChainEntry" where
  "fromBlock fc block prev = block\<lparr>chainwork := getChainwork fc block prev\<rparr>"

text \<open>
  A chain of entries: each block is turned into an entry on top of the entry made from
  the block before it, the first one on top of \<open>prev\<close> (\<open>None\<close> for genesis). The result
  is the tip, if any block was added.
\<close>

fun connectEntries :: "(32 word \<Rightarrow> int) \<Rightarrow> ChainEntry option \<Rightarrow> ChainEntry list \<Rightarrow> ChainEntry option" where
  "connectEntries fc prev [] = prev"
| "connectEntries fc prev (b # bs) = connectEntries fc (Some (fromBlock fc b prev)) bs"

text \<open>\<^verbatim>\<open>constants.block.MEDIAN_TIMESPAN\<close>.
  Modelled from the spec: the constants table is not among the sources; the spec gives
  \<^verbatim>\<open>MEDIAN_TIMESPAN=11\<close>.\<close>

definition MEDIAN_TIMESPAN :: nat where
  "MEDIAN_TIMESPAN = 11"

text \<open>
  JavaScript's \<^verbatim>\<open>Array.prototype.sort()\<close> without a comparison function converts the
  elements to strings and orders them by UTF-16 code units. A timestamp is a non-negative
  integer, whose string is its decimal digits.
\<close>

function toString :: "nat \<Rightarrow> string" where
  "toString n = (if n < 10 then [char_of (48 + n)]
                 else toString (n div 10) @ [char_of (48 + n mod 10)])"
  by pat_completeness auto
termination
  by (relation "measure id") auto

fun stringLess :: "string \<Rightarrow> string \<Rightarrow> bool" where
  "stringLess [] [] = False"
| "stringLess [] (y # ys) = True"
| "stringLess (x # xs) [] = False"
| "stringLess (x # xs) (y # ys) =
     (if (of_char x :: nat) < of_char y then True
      else if (of_char y :: nat) < of_char x then False
      else stringLess xs ys)"

text \<open>The order the default sort uses on numbers.\<close>

definition sortLess :: "nat \<Rightarrow> nat \<Rightarrow> bool" where
  "sortLess a b = stringLess (toString a) (toString b)"

fun sortInsert :: "nat \<Rightarrow> nat list \<Rightarrow> nat list" where
  "sortInsert a [] = [a]"
| "sortInsert a (b # bs) = (if sortLess b a then b # sortInsert a bs else a # b # bs)"

fun defaultSort :: "nat list \<Rightarrow> nat list" where
  "defaultSort [] = []"
| "defaultSort (a # as) = sortInsert a (defaultSort as)"

text \<open>
  The loop of \<^verbatim>\<open>getMedianTime\<close>:
  \<^verbatim>\<open>for (i = 0; i < timeSpan && entry; i++, entry = ancestors[i]) median.push(entry.ts)\<close>.
  It starts at the entry itself and goes on with \<^verbatim>\<open>ancestors[1]\<close>, \<^verbatim>\<open>ancestors[2]\<close>, ...;
  reading past the end of the array gives \<^verbatim>\<open>undefined\<close>, which stops the loop.
\<close>

definition arrayGet :: "'a list \<Rightarrow> nat \<Rightarrow> 'a option" where
  "arrayGet xs i = (if i < length xs then Some (xs ! i) else None)"

function medianLoop :: "nat \<Rightarrow> ChainEntry option \<Rightarrow> ChainEntry list \<Rightarrow> nat list \<Rightarrow> nat list" where
  "medianLoop i entry ancestors median =
     (if i < MEDIAN_TIMESPAN then
        (case entry of
           None \<Rightarrow> median
         | Some e \<Rightarrow> medianLoop (i + 1) (arrayGet ancestors (i + 1)) ancestors (median @ [ts e]))
      else median)"
  by pat_completeness auto
termination
  by (relation "measure (\<lambda>(i, entry, ancestors, median). MEDIAN_TIMESPAN - i)") auto

text \<open>
  \<^verbatim>\<open>median = median.sort(); return median[median.length / 2 | 0]\<close>. The loop pushes the
  entry's own timestamp first, so the array is never empty and the index is in range.
\<close>

definition getMedianTime :: "ChainEntry \<Rightarrow> ChainEntry list \<Rightarrow> nat" where
  "getMedianTime e ancestors =
     (let median = defaultSort (medianLoop 0 (Some e) ancestors [])
      in median ! (length median div 2))"

text \<open>
  The median the specification describes: the middle element of the same timestamps
  sorted in ascending numerical order.
\<close>

definition specMedianTime :: "ChainEntry \<Rightarrow> ChainEntry list \<Rightarrow> nat" where
  "specMedianTime e ancestors =
     (let median = sort (medianLoop 0 (Some e) ancestors [])
      in median ! (length median div 2))"

section \<open>Buffers (reader.js, writer.js)\<close>

type_synonym bytes = "8 word list"

text \<open>
  What the code throws: a failed \<^verbatim>\<open>assert\<close> with its message, a read past the end of
  a buffer (an assertion of the reader), and the \<^verbatim>\<open>TypeError\<close> of reading a property of
  \<^verbatim>\<open>undefined\<close>.
\<close>

datatype error = AssertionError string | OutOfBounds | TypeError

text \<open>
  Modelled from the spec: \<^verbatim>\<open>BufferWriter\<close> and \<^verbatim>\<open>BufferReader\<close> (writer.js, reader.js) are
  not among the sources. The spec's grammar of the serialised coins names the encodings
  they provide: \<^verbatim>\<open>u8\<close>, \<^verbatim>\<open>u32\<close>, \<^verbatim>\<open>varint\<close>, \<^verbatim>\<open>varbytes\<close>, \<^verbatim>\<open>20_bytes\<close>. They are
  Bitcoin's: little-endian integers, and the variable-length integer with one byte below
  \<open>0xfd\<close> and the markers \<open>0xfd\<close>, \<open>0xfe\<close>, \<open>0xff\<close> for 2, 4 and 8 bytes. A writer is the
  list of bytes written so far; a reader is the buffer, the offset, and the stack of offsets
  that \<^verbatim>\<open>start()\<close> pushes and \<^verbatim>\<open>end()\<close> pops.
\<close>

fun leBytes :: "nat \<Rightarrow> nat \<Rightarrow> bytes" where
  "leBytes 0 n = []"
| "leBytes (Suc k) n = of_nat (n mod 256) # leBytes k (n div 256)"

fun leNat :: "bytes \<Rightarrow> nat" where
  "leNat [] = 0"
| "leNat (b # bs) = unat b + 256 * leNat bs"

definition writeU8 :: "8 word \<Rightarrow> bytes" where
  "writeU8 b = [b]"

definition writeU32 :: "32 word \<Rightarrow> bytes" where
  "writeU32 w = leBytes 4 (unat w)"

definition writeVarint :: "nat \<Rightarrow> bytes" where
  "writeVarint n =
     (if n < 0xfd then [of_nat n]
      else if n \<le> 0xffff then 0xfd # leBytes 2 n
      else if n \<le> 0xffffffff then 0xfe # leBytes 4 n
      else 0xff # leBytes 8 n)"

definition writeVarBytes :: "bytes \<Rightarrow> bytes" where
  "writeVarBytes bs = writeVarint (length bs) @ bs"

record BufferReader =
  rd_data :: bytes
  rd_offset :: nat
  rd_stack :: "nat list"

definition newReader :: "bytes \<Rightarrow> BufferReader" where
  "newReader d = \<lparr>rd_data = d, rd_offset = 0, rd_stack = []\<rparr>"

definition left :: "BufferReader \<Rightarrow> nat" where
  "left p = length (rd_data p) - rd_offset p"

definition start :: "BufferReader \<Rightarrow> BufferReader" where
  "start p = p\<lparr>rd_stack := rd_offset p # rd_stack p\<rparr>"

text \<open>\<^verbatim>\<open>end()\<close> returns the number of bytes read since the matching \<^verbatim>\<open>start()\<close>.\<close>

definition endSize :: "BufferReader \<Rightarrow> nat" where
  "endSize p = (case rd_stack p of [] \<Rightarrow> 0 | s # _ \<Rightarrow> rd_offset p - s)"

definition endReader :: "BufferReader \<Rightarrow> BufferReader" where
  "endReader p = p\<lparr>rd_stack := tl (rd_stack p)\<rparr>"

definition readBytes :: "nat \<Rightarrow> BufferReader \<Rightarrow> error + (bytes \<times> BufferReader)" where
  "readBytes n p =
     (if rd_offset p + n \<le> length (rd_data p)
      then Inr (take n (drop (rd_offset p) (rd_data p)), p\<lparr>rd_offset := rd_offset p + n\<rparr>)
      else Inl OutOfBounds)"

definition seek :: "nat \<Rightarrow> BufferReader \<Rightarrow> error + BufferReader" where
  "seek n p =
     (if rd_offset p + n \<le> length (rd_data p)
      then Inr (p\<lparr>rd_offset := rd_offset p + n\<rparr>)
      else Inl OutOfBounds)"

definition readU8 :: "BufferReader \<Rightarrow> error + (8 word \<times> BufferReader)" where
  "readU8 p =
     (if rd_offset p + 1 \<le> length (rd_data p)
      then Inr (rd_data p ! rd_offset p, p\<lparr>rd_offset := rd_offset p + 1\<rparr>)
      else Inl OutOfBounds)"

definition readLE :: "nat \<Rightarrow> BufferReader \<Rightarrow> error + (nat \<times> BufferReader)" where
  "readLE n p =
     (case readBytes n p of
        Inl e \<Rightarrow> Inl e
      | Inr (bs, p') \<Rightarrow> Inr (leNat bs, p'))"

definition readU32 :: "BufferReader \<Rightarrow> error + (32 word \<times> BufferReader)" where
  "readU32 p =
     (case readLE 4 p of
        Inl e \<Rightarrow> Inl e
      | Inr (n, p') \<Rightarrow> Inr (of_nat n, p'))"

definition readVarint :: "BufferReader \<Rightarrow> error + (nat \<times> BufferReader)" where
  "readVarint p =
     (case readU8 p of
        Inl e \<Rightarrow> Inl e
      | Inr (b, p') \<Rightarrow>
          if b = 0xff then readLE 8 p'
          else if b = 0xfe then readLE 4 p'
          else if b = 0xfd then readLE 2 p'
          else Inr (unat b, p'))"

definition readVarBytes :: "BufferReader \<Rightarrow> error + (bytes \<times> BufferReader)" where
  "readVarBytes p =
     (case readVarint p of
        Inl e \<Rightarrow> Inl e
      | Inr (n, p') \<Rightarrow> readBytes n p')"

section \<open>Scripts, coins and the coins of a transaction (coins.js)\<close>

text \<open>
  Modelled from the spec: \<^verbatim>\<open>Script\<close> (script.js) is not among the sources. A script is
  taken as its serialisation, so that \<^verbatim>\<open>script.toRaw()\<close> and \<^verbatim>\<open>script.fromRaw(data)\<close> are
  the identity. The two templates that the spec says are compressed to a 20-byte hash are
  pay-to-pubkey-hash (\<open>76 a9 14 <hash> 88 ac\<close>, the hash being \<^verbatim>\<open>code[2].data\<close>) and
  pay-to-script-hash (\<open>a9 14 <hash> 87\<close>, the hash being \<^verbatim>\<open>code[1].data\<close>).
\<close>

type_synonym script = bytes

definition isPubkeyhash :: "script \<Rightarrow> bool" where
  "isPubkeyhash s = (length s = 25 \<and> take 3 s = [0x76, 0xa9, 0x14] \<and> drop 23 s = [0x88, 0xac])"

definition pubkeyhashData :: "script \<Rightarrow> bytes" where
  "pubkeyhashData s = take 20 (drop 3 s)"

definition fromPubkeyhash :: "bytes \<Rightarrow> script" where
  "fromPubkeyhash h = [0x76, 0xa9, 0x14] @ h @ [0x88, 0xac]"

definition isScripthash :: "script \<Rightarrow> bool" where
  "isScripthash s = (length s = 23 \<and> take 2 s = [0xa9, 0x14] \<and> drop 22 s = [0x87])"

definition scripthashData :: "script \<Rightarrow> bytes" where
  "scripthashData s = take 20 (drop 2 s)"

definition fromScripthash :: "bytes \<Rightarrow> script" where
  "fromScripthash h = [0xa9, 0x14] @ h @ [0x87]"

text \<open>
  A coin (coin.js, of which the code here uses the fields only), the deferred coin of
  coins.js, and the coins of one transaction. A slot of \<^verbatim>\<open>outputs\<close> holds a coin, a deferred
  coin, or \<^verbatim>\<open>null\<close>.
\<close>

record Coin =
  coin_version :: nat
  coin_height :: int
  coin_value :: nat
  coin_script :: script
  coin_coinbase :: bool
  coin_hash :: hash
  coin_index :: nat

record DeferredCoin =
  def_offset :: nat
  def_size :: nat
  def_raw :: bytes

datatype slot = Plain Coin | Deferred DeferredCoin

record Coins =
  coins_version :: nat
  coins_hash :: hash
  coins_height :: int
  coins_coinbase :: bool
  coins_outputs :: "slot option list"

text \<open>\<^verbatim>\<open>new Coins()\<close>: version 1, the null hash, height -1, coinbase, no outputs.\<close>

definition NULL_HASH :: hash where
  "NULL_HASH = replicate 64 (CHR ''0'')"

definition newCoins :: Coins where
  "newCoins = \<lparr>coins_version = 1, coins_hash = NULL_HASH, coins_height = -1,
               coins_coinbase = True, coins_outputs = []\<rparr>"

text \<open>
  \<^verbatim>\<open>DeferredCoin.prototype.toCoin(coins, index)\<close>: seek to the offset, read the prefix, the
  script or its hash, and the value.
\<close>

definition toCoin :: "DeferredCoin \<Rightarrow> Coins \<Rightarrow> nat \<Rightarrow> error + Coin" where
  "toCoin d coins index =
     (case seek (def_offset d) (newReader (def_raw d)) of
        Inl e \<Rightarrow> Inl e
      | Inr p0 \<Rightarrow>
     (case readU8 p0 of
        Inl e \<Rightarrow> Inl e
      | Inr (b, p1) \<Rightarrow>
     (case (if b AND 3 = 0 then readVarBytes p1
            else if b AND 3 = 1 then
              (case readBytes 20 p1 of Inl e \<Rightarrow> Inl e | Inr (h, p2) \<Rightarrow> Inr (fromPubkeyhash h, p2))
            else if b AND 3 = 2 then
              (case readBytes 20 p1 of Inl e \<Rightarrow> Inl e | Inr (h, p2) \<Rightarrow> Inr (fromScripthash h, p2))
            else Inl (AssertionError ''Bad prefix.'')) of
        Inl e \<Rightarrow> Inl e
      | Inr (s, p2) \<Rightarrow>
     (case readVarint p2 of
        Inl e \<Rightarrow> Inl e
      | Inr (v, p3) \<Rightarrow>
          Inr \<lparr>coin_version = coins_version coins, coin_height = coins_height coins,
               coin_value = v, coin_script = s, coin_coinbase = coins_coinbase coins,
               coin_hash = coins_hash coins, coin_index = index\<rparr>))))"

text \<open>\<^verbatim>\<open>DeferredCoin.prototype.toRaw\<close>: \<^verbatim>\<open>raw.slice(offset, offset + size)\<close>.\<close>

definition deferredToRaw :: "DeferredCoin \<Rightarrow> bytes" where
  "deferredToRaw d = take (def_size d) (drop (def_offset d) (def_raw d))"

text \<open>
  \<^verbatim>\<open>Coins.prototype.has\<close>, \<^verbatim>\<open>get\<close> and \<^verbatim>\<open>spend\<close>. Reading a JavaScript array past its end
  gives \<^verbatim>\<open>undefined\<close>; assigning past its end extends it, the slots in between staying
  empty (they read as \<^verbatim>\<open>undefined\<close>, which the code treats as \<^verbatim>\<open>null\<close> everywhere).
\<close>

definition arraySet :: "'a option list \<Rightarrow> nat \<Rightarrow> 'a option \<Rightarrow> 'a option list" where
  "arraySet xs i v =
     (if i < length xs then xs[i := v]
      else xs @ replicate (i - length xs) None @ [v])"

definition slotAt :: "Coins \<Rightarrow> nat \<Rightarrow> slot option" where
  "slotAt coins index =
     (if index < length (coins_outputs coins) then coins_outputs coins ! index else None)"

definition coinsHas :: "Coins \<Rightarrow> nat \<Rightarrow> bool" where
  "coinsHas coins index = (slotAt coins index \<noteq> None)"

definition coinsGet :: "Coins \<Rightarrow> nat \<Rightarrow> error + Coin option" where
  "coinsGet coins index =
     (case slotAt coins index of
        None \<Rightarrow> Inr None
      | Some (Plain c) \<Rightarrow> Inr (Some c)
      | Some (Deferred d) \<Rightarrow>
          (case toCoin d coins index of Inl e \<Rightarrow> Inl e | Inr c \<Rightarrow> Inr (Some c)))"

definition coinsSpend :: "Coins \<Rightarrow> nat \<Rightarrow> error + (Coin option \<times> Coins)" where
  "coinsSpend coins index =
     (case coinsGet coins index of
        Inl e \<Rightarrow> Inl e
      | Inr coin \<Rightarrow>
          Inr (coin, coins\<lparr>coins_outputs := arraySet (coins_outputs coins) index None\<rparr>))"

text \<open>\<^verbatim>\<open>Coins.prototype.count\<close>: the number of unspent outputs.\<close>

definition coinsCount :: "Coins \<Rightarrow> nat" where
  "coinsCount coins = length (filter (\<lambda>s. s \<noteq> None) (coins_outputs coins))"

section \<open>Transactions as the coin view and the chain database see them\<close>

text \<open>
  An input (input.js) has its outpoint \<^verbatim>\<open>prevout\<close>, its script and witness and, once
  resolved, the coin it spends; \<^verbatim>\<open>Input.isCoinbase\<close> is \<^verbatim>\<open>prevout.isNull()\<close>.

  Modelled from the spec: \<^verbatim>\<open>TX\<close>, \<^verbatim>\<open>Output\<close> and \<^verbatim>\<open>Outpoint\<close> (tx.js, output.js, outpoint.js)
  are not among the sources, apart from the fields the code here reads. An outpoint is a
  previous transaction's hash and an output index; an output has a value and a script; a
  transaction has its hash, version, the height and time of the block that holds it (-1
  and 0 when unconfirmed), its inputs and its outputs. A coinbase has exactly one input,
  with the null outpoint (the null hash and index \<open>0xffffffff\<close>).
\<close>

record Outpoint =
  prev_hash :: hash
  prev_index :: nat

record Input =
  prevout :: Outpoint
  coin :: "Coin option"
  in_script :: script
  witness :: "bytes list"

record Output =
  out_value :: nat
  out_script :: script

record TX =
  tx_hash :: hash
  tx_version :: nat
  tx_height :: int
  tx_ts :: nat
  inputs :: "Input list"
  outputs :: "Output list"

definition isNull :: "Outpoint \<Rightarrow> bool" where
  "isNull p = (prev_hash p = NULL_HASH \<and> prev_index p = 0xffffffff)"

definition isCoinbase :: "TX \<Rightarrow> bool" where
  "isCoinbase tx = (length (inputs tx) = 1 \<and> isNull (prevout (hd (inputs tx))))"

section \<open>CoinView (coinview.js)\<close>

text \<open>The view is a map from transaction hash to the coins of that transaction.\<close>

type_synonym CoinView = "hash \<rightharpoonup> Coins"

definition viewAdd :: "CoinView \<Rightarrow> Coins \<Rightarrow> CoinView" where
  "viewAdd view coins = view(coins_hash coins \<mapsto> coins)"

definition viewGet :: "CoinView \<Rightarrow> hash \<Rightarrow> nat \<Rightarrow> error + Coin option" where
  "viewGet view h index =
     (case view h of None \<Rightarrow> Inr None | Some coins \<Rightarrow> coinsGet coins index)"

definition viewHas :: "CoinView \<Rightarrow> hash \<Rightarrow> nat \<Rightarrow> bool" where
  "viewHas view h index =
     (case view h of None \<Rightarrow> False | Some coins \<Rightarrow> coinsHas coins index)"

definition viewSpend :: "CoinView \<Rightarrow> hash \<Rightarrow> nat \<Rightarrow> error + (Coin option \<times> CoinView)" where
  "viewSpend view h index =
     (case view h of
        None \<Rightarrow> Inr (None, view)
      | Some coins \<Rightarrow>
          (case coinsSpend coins index of
             Inl e \<Rightarrow> Inl e
           | Inr (c, coins') \<Rightarrow> Inr (c, view(h \<mapsto> coins'))))"

text \<open>
  The loop of \<^verbatim>\<open>fillCoins\<close>: \<^verbatim>\<open>input.coin = this.spend(...)\<close>, and \<^verbatim>\<open>return false\<close> at the
  first input for which that is \<^verbatim>\<open>undefined\<close>. The inputs are returned as the loop leaves
  them.
\<close>

fun fillInputs :: "CoinView \<Rightarrow> Input list \<Rightarrow> error + (bool \<times> Input list \<times> CoinView)" where
  "fillInputs view [] = Inr (True, [], view)"
| "fillInputs view (i # rest) =
     (case viewSpend view (prev_hash (prevout i)) (prev_index (prevout i)) of
        Inl e \<Rightarrow> Inl e
      | Inr (c, view') \<Rightarrow>
          (if c = None then Inr (False, i\<lparr>coin := c\<rparr> # rest, view')
           else (case fillInputs view' rest of
                   Inl e \<Rightarrow> Inl e
                 | Inr (b, rest', view'') \<Rightarrow> Inr (b, i\<lparr>coin := c\<rparr> # rest', view''))))"

definition fillCoins :: "CoinView \<Rightarrow> TX \<Rightarrow> error + (bool \<times> TX \<times> CoinView)" where
  "fillCoins view tx =
     (case fillInputs view (inputs tx) of
        Inl e \<Rightarrow> Inl e
      | Inr (b, ins, view') \<Rightarrow> Inr (b, tx\<lparr>inputs := ins\<rparr>, view'))"

section \<open>Mempool (mempool.js)\<close>

text \<open>
  The mempool of \<^verbatim>\<open>mempool.js\<close>, in the version whose transactions, spenders and coins
  are kept serialised in in-memory maps and whose removal path goes through callbacks. The
  callbacks run one after another, so the model is sequential: a function takes the mempool
  and returns it updated, together with what it hands to its callback.

  An event is the name given to \<^verbatim>\<open>emit\<close> and the hash of the transaction it carries, or
  an \<^verbatim>\<open>error\<close> event with its error. A
  \<^verbatim>\<open>VerifyError\<close> has a type, a reason, a ban score and the transaction's hash; any other
  error handed to a callback (by the chain, the database or the verification workers) is
  \<open>Err\<close>. A call either returns, or throws (a failed assertion), or needs more nested
  calls than the fuel allows.
\<close>

datatype failure = VerifyError string string int hash | Err string

datatype Event = Emit string hash | EmitError failure

datatype 'a outcome = Returned 'a | Thrown error | OutOfFuel

text \<open>
  The parts of the repository that the mempool calls and that are not among the sources
  are parameters: the protocol constants (constants.js), the chain and its database as far
  as the mempool asks them questions (chain.js), and the methods of transactions (tx.js).
  \<^verbatim>\<open>isSane\<close>, \<^verbatim>\<open>isStandard\<close> and \<^verbatim>\<open>checkInputs\<close> return false with a reason and a score
  in \<^verbatim>\<open>ret\<close>; here \<open>None\<close> is true and \<open>Some (reason, score)\<close> is false.
\<close>

record Constants =
  STANDARD_LOCKTIME_FLAGS :: "32 word"
  STANDARD_VERIFY_FLAGS :: "32 word"
  MANDATORY_VERIFY_FLAGS :: "32 word"
  VERIFY_WITNESS :: "32 word"
  MAX_SIGOPS_COST :: nat
  ANCESTOR_LIMIT :: nat
  MEMPOOL_EXPIRY :: int
  FEE_HALFLIFE :: "32 word"
  MAX_ORPHAN_TX :: int
  FREE_THRESHOLD :: real
  ptrSize :: nat

record Chain =
  chain_height :: int
  state_hasCSV :: bool
  state_hasWitness :: bool
  checkFinal :: "TX \<Rightarrow> 32 word \<Rightarrow> string + bool"
  checkLocks :: "TX \<Rightarrow> 32 word \<Rightarrow> string + bool"
  db_hasCoins :: "hash \<Rightarrow> string + bool"
  db_getCoin :: "hash \<Rightarrow> nat \<Rightarrow> string + Coin option"

record TXLib =
  isSane :: "TX \<Rightarrow> (string \<times> int) option"
  txHasWitness :: "TX \<Rightarrow> bool"
  isStandard :: "TX \<Rightarrow> (string \<times> int) option"
  hasStandardInputs :: "TX \<Rightarrow> bool"
  getSigopsCost :: "TX \<Rightarrow> 32 word \<Rightarrow> nat"
  getFee :: "TX \<Rightarrow> int"
  getMinFee :: "TX \<Rightarrow> nat \<Rightarrow> int \<Rightarrow> int"
  checkInputs :: "TX \<Rightarrow> int \<Rightarrow> (string \<times> int) option"
  verifyAsync :: "TX \<Rightarrow> 32 word \<Rightarrow> string + bool"
  getSize :: "TX \<Rightarrow> nat"
  getVirtualSize :: "TX \<Rightarrow> nat"
  getPriority :: "TX \<Rightarrow> int \<Rightarrow> real"
  getChainValue :: "TX \<Rightarrow> int \<Rightarrow> int"
  getModifiedSize :: "TX \<Rightarrow> nat \<Rightarrow> nat"
  getRate :: "nat \<Rightarrow> int \<Rightarrow> int"
  getPrevout :: "TX \<Rightarrow> hash list"
  hasCoins :: "TX \<Rightarrow> bool"
  txFillCoins :: "TX \<Rightarrow> TX \<Rightarrow> TX"
  isUnspendable :: "script \<Rightarrow> bool"

text \<open>
  The environment of a call: the three tables, the clock (\<^verbatim>\<open>utils.now()\<close>, in seconds,
  taken as constant during a call), the random numbers of \<^verbatim>\<open>bcoin.ec.rand(min, max)\<close>, and
  the comparison \<^verbatim>\<open>utils.cmp\<close> with which the tree of the entries' times compares its keys.

  Modelled from the spec: \<^verbatim>\<open>utils.cmp\<close> (utils.js) is not among the sources. It is a
  parameter: a function of two keys whose result is negative, zero or positive.
\<close>

record Env =
  constants :: Constants
  chain :: Chain
  lib :: TXLib
  now :: int
  rand :: "nat \<Rightarrow> nat \<Rightarrow> nat"
  cmp :: "int \<Rightarrow> int \<Rightarrow> int"

record MempoolEntry =
  e_tx :: TX
  e_height :: int
  e_size :: nat
  e_priority :: real
  e_fee :: int
  e_ts :: int
  e_chainValue :: int
  e_count :: nat
  e_sizes :: nat
  e_fees :: int
  e_dependencies :: bool

text \<open>
  The state of the mempool. \<^verbatim>\<open>tx\<close> and \<^verbatim>\<open>orphans\<close> are objects whose keys the code
  enumerates (\<^verbatim>\<open>Object.keys\<close>), so they are association lists in insertion order:
  \<open>map_of\<close> reads a key, \<open>AList.update\<close> sets it (in place if present, at the end if
  not), \<open>AList.delete\<close> deletes it. The maps \<^verbatim>\<open>spents\<close> and \<^verbatim>\<open>coins\<close> are keyed by the string
  \<^verbatim>\<open>hash + index\<close>. \<^verbatim>\<open>time\<close> is a red-black tree from entry time to hash (rbt.js, not
  among the sources), kept here as the list of its items. \<open>mp_pending\<close> is the locker's
  queue of transactions waiting for the lock, \<open>mp_networkMinRelay\<close> the \<^verbatim>\<open>minRelay\<close> of the
  network object, \<open>mp_events\<close> the events emitted so far, oldest first. The fee estimator
  (\<^verbatim>\<open>options.fees\<close>) and the address indexes (\<^verbatim>\<open>options.indexAddress\<close>) are taken as
  switched off, as they are by default.
\<close>

record Mempool =
  mp_size :: int
  mp_waiting :: "hash \<rightharpoonup> hash list"
  mp_orphans :: "(hash \<times> TX) list"
  mp_totalOrphans :: int
  mp_spent :: int
  mp_total :: int
  mp_tx :: "(hash \<times> MempoolEntry) list"
  mp_spents :: "string \<rightharpoonup> Outpoint"
  mp_coins :: "string \<rightharpoonup> Coin"
  mp_time :: "(int \<times> bytes) list"
  mp_freeCount :: real
  mp_lastTime :: int
  mp_limitFree :: bool
  mp_limitFreeRelay :: nat
  mp_relayPriority :: bool
  mp_requireStandard :: bool
  mp_rejectAbsurdFees :: bool
  mp_prematureWitness :: bool
  mp_accurateMemory :: bool
  mp_maxSize :: int
  mp_blockSinceBump :: bool
  mp_lastFeeUpdate :: int
  mp_minFeeRate :: int
  mp_minReasonableFee :: int
  mp_minRelayFee :: int
  mp_networkMinRelay :: int
  mp_pending :: "hash list"
  mp_events :: "Event list"

definition emit :: "string \<Rightarrow> TX \<Rightarrow> Mempool \<Rightarrow> Mempool" where
  "emit name t m = m\<lparr>mp_events := mp_events m @ [Emit name (tx_hash t)]\<rparr>"

definition key :: "hash \<Rightarrow> nat \<Rightarrow> string" where
  "key h index = h @ toString index"

text \<open>
  \<^verbatim>\<open>mallocUsage(alloc)\<close>: \<^verbatim>\<open>((alloc + 31) >>> 4) << 4\<close> with 8-byte pointers and
  \<^verbatim>\<open>((alloc + 15) >>> 3) << 3\<close> otherwise, on 32-bit integers.
\<close>

definition mallocUsage :: "nat \<Rightarrow> int \<Rightarrow> int" where
  "mallocUsage ptr alloc =
     (if alloc = 0 then 0
      else if ptr = 8 then sint (push_bit 4 (drop_bit 4 (word_of_int (alloc + 31) :: 32 word)))
      else sint (push_bit 3 (drop_bit 3 (word_of_int (alloc + 15) :: 32 word))))"

definition memUsageAccurate :: "Env \<Rightarrow> TX \<Rightarrow> int" where
  "memUsageAccurate env t =
     0 + (int (getSize (lib env) t) + 4 + 32 + 4 + 4 + 4)
       + (2 + 64)
       + (2 + 10 + 1 + 64)
       + (int (length (inputs t)) * (2 + 64 + 1 + 2 + 32))
       + (int (length (outputs t)) * (2 + 64 + 1 + 2 + 80))"

definition memUsageBitcoind :: "Env \<Rightarrow> TX \<Rightarrow> int" where
  "memUsageBitcoind env t =
     (let mu = mallocUsage (ptrSize (constants env)) in
      mu (int (length (inputs t)))
      + mu (int (length (outputs t)))
      + sum_list (map (\<lambda>i. mu (int (length (in_script i)))) (inputs t))
      + sum_list (map (\<lambda>out. mu (int (length (out_script out)))) (outputs t))
      + mu (int (length (inputs t)))
      + sum_list (map (\<lambda>i. mu (int (length (witness i)))
                            + sum_list (map (\<lambda>item. mu (int (length item))) (witness i)))
                      (inputs t)))"

definition memUsage :: "Env \<Rightarrow> Mempool \<Rightarrow> TX \<Rightarrow> int" where
  "memUsage env m t =
     (if mp_accurateMemory m then memUsageAccurate env t else memUsageBitcoind env t)"

text \<open>\<^verbatim>\<open>getSize()\<close>: the memory usage of the whole mempool.\<close>

definition mempoolGetSize :: "Env \<Rightarrow> Mempool \<Rightarrow> int" where
  "mempoolGetSize env m =
     (if mp_accurateMemory m then mp_size m
      else (let mu = mallocUsage (ptrSize (constants env)) in
            mu (162 + 15 * int (ptrSize (constants env))) * mp_total m
            + mu (mp_spent m)
            + mu (mp_total m)
            + mu (mp_total m)
            + mp_size m))"

text \<open>
  The entries are stored serialised (\<^verbatim>\<open>entry.toRaw()\<close>) and parsed again when read. The
  serialisation of a transaction does not hold the coins of its inputs, so an entry read
  back has none; what was written is taken to parse.
\<close>

definition stripCoins :: "TX \<Rightarrow> TX" where
  "stripCoins t = t\<lparr>inputs := map (\<lambda>i. i\<lparr>coin := None\<rparr>) (inputs t)\<rparr>"

definition entryToRaw :: "MempoolEntry \<Rightarrow> MempoolEntry" where
  "entryToRaw entry = entry\<lparr>e_tx := stripCoins (e_tx entry)\<rparr>"

definition getEntry :: "Mempool \<Rightarrow> hash \<Rightarrow> MempoolEntry option" where
  "getEntry m h = map_of (mp_tx m) h"

definition getTX :: "Mempool \<Rightarrow> hash \<Rightarrow> TX option" where
  "getTX m h = map_option e_tx (map_of (mp_tx m) h)"

definition mempoolGetCoin :: "Mempool \<Rightarrow> hash \<Rightarrow> nat \<Rightarrow> Coin option" where
  "mempoolGetCoin m h index =
     map_option (\<lambda>c. c\<lparr>coin_hash := h, coin_index := index\<rparr>) (mp_coins m (key h index))"

definition isSpent :: "Mempool \<Rightarrow> hash \<Rightarrow> nat \<Rightarrow> Outpoint option" where
  "isSpent m h index = mp_spents m (key h index)"

definition hasTX :: "Mempool \<Rightarrow> hash \<Rightarrow> bool" where
  "hasTX m h = (map_of (mp_tx m) h \<noteq> None)"

definition hasOrphan :: "Mempool \<Rightarrow> hash \<Rightarrow> bool" where
  "hasOrphan m h = (map_of (mp_orphans m) h \<noteq> None)"

definition has :: "Mempool \<Rightarrow> hash \<Rightarrow> bool" where
  "has m h = (if h \<in> set (mp_pending m) then True
              else if hasOrphan m h then True
              else hasTX m h)"

text \<open>
  Modelled from the spec: \<^verbatim>\<open>bcoin.coin.fromTX(tx, index)\<close> (coin.js) is not among the
  sources. The spec's coin is one output of a transaction with its context: version,
  height, coinbase flag, hash and index. An index past the outputs reads a property of
  \<^verbatim>\<open>undefined\<close>.
\<close>

definition coinFromTX :: "TX \<Rightarrow> nat \<Rightarrow> error + Coin" where
  "coinFromTX t index =
     (if index < length (outputs t) then
        Inr \<lparr>coin_version = tx_version t, coin_height = tx_height t,
             coin_value = out_value (outputs t ! index),
             coin_script = out_script (outputs t ! index),
             coin_coinbase = isCoinbase t, coin_hash = tx_hash t, coin_index = index\<rparr>
      else Inl TypeError)"

text \<open>
  \<^verbatim>\<open>fillHistory(tx)\<close>: every input without a coin whose previous transaction is in the
  mempool gets the coin made from that transaction.
\<close>

fun fillHistoryInputs :: "Mempool \<Rightarrow> Input list \<Rightarrow> error + Input list" where
  "fillHistoryInputs m [] = Inr []"
| "fillHistoryInputs m (i # rest) =
     (case (if coin i \<noteq> None then Inr i
            else (case getTX m (prev_hash (prevout i)) of
                    None \<Rightarrow> Inr i
                  | Some prev \<Rightarrow>
                      (case coinFromTX prev (prev_index (prevout i)) of
                         Inl e \<Rightarrow> Inl e
                       | Inr c \<Rightarrow> Inr (i\<lparr>coin := Some c\<rparr>)))) of
        Inl e \<Rightarrow> Inl e
      | Inr i' \<Rightarrow>
          (case fillHistoryInputs m rest of
             Inl e \<Rightarrow> Inl e
           | Inr rest' \<Rightarrow> Inr (i' # rest')))"

definition fillHistory :: "Mempool \<Rightarrow> TX \<Rightarrow> error + TX" where
  "fillHistory m t =
     (if isCoinbase t then Inr t
      else (case fillHistoryInputs m (inputs t) of
              Inl e \<Rightarrow> Inl e
            | Inr ins \<Rightarrow> Inr (t\<lparr>inputs := ins\<rparr>)))"

text \<open>\<^verbatim>\<open>Mempool.prototype.fillCoins(tx)\<close>: the same with the unspent coins of the mempool.\<close>

definition mempoolFillCoins :: "Mempool \<Rightarrow> TX \<Rightarrow> TX" where
  "mempoolFillCoins m t =
     (if isCoinbase t then t
      else t\<lparr>inputs := map (\<lambda>i.
             if coin i \<noteq> None then i
             else (case mempoolGetCoin m (prev_hash (prevout i)) (prev_index (prevout i)) of
                     None \<Rightarrow> i
                   | Some c \<Rightarrow> i\<lparr>coin := Some c\<rparr>)) (inputs t)\<rparr>)"

text \<open>
  \<^verbatim>\<open>ChainDB.prototype.fillCoins(tx, callback)\<close>, with the database's \<^verbatim>\<open>getCoin\<close> as the
  chain parameter gives it: an error of \<^verbatim>\<open>getCoin\<close> goes to the callback.
\<close>

fun dbFillInputs :: "Env \<Rightarrow> Input list \<Rightarrow> string + Input list" where
  "dbFillInputs env [] = Inr []"
| "dbFillInputs env (i # rest) =
     (case (if coin i \<noteq> None then Inr i
            else (case db_getCoin (chain env) (prev_hash (prevout i)) (prev_index (prevout i)) of
                    Inl err \<Rightarrow> Inl err
                  | Inr None \<Rightarrow> Inr i
                  | Inr (Some c) \<Rightarrow> Inr (i\<lparr>coin := Some c\<rparr>))) of
        Inl err \<Rightarrow> Inl err
      | Inr i' \<Rightarrow>
          (case dbFillInputs env rest of
             Inl err \<Rightarrow> Inl err
           | Inr rest' \<Rightarrow> Inr (i' # rest')))"

definition dbFillCoins :: "Env \<Rightarrow> TX \<Rightarrow> string + TX" where
  "dbFillCoins env t =
     (if isCoinbase t then Inr t
      else (case dbFillInputs env (inputs t) of
              Inl err \<Rightarrow> Inl err
            | Inr ins \<Rightarrow> Inr (t\<lparr>inputs := ins\<rparr>)))"

text \<open>
  \<^verbatim>\<open>fillAllHistory(tx, callback)\<close>: the mempool's history first, then the chain's coins.
  The callback gets an error or the filled transaction.
\<close>

definition fillAllHistory :: "Env \<Rightarrow> Mempool \<Rightarrow> TX \<Rightarrow> (string + TX) outcome" where
  "fillAllHistory env m t =
     (case fillHistory m t of
        Inl e \<Rightarrow> Thrown e
      | Inr t' \<Rightarrow>
          if hasCoins (lib env) t' then Returned (Inr t')
          else Returned (dbFillCoins env t'))"

text \<open>
  \<^verbatim>\<open>fillAllCoins(tx, callback)\<close>: the mempool's coins first; if an input is left without
  one, every input that the mempool does not record as spent is looked up in the chain
  database, and a coin found there is attached.
\<close>

fun fillAllInputs :: "Env \<Rightarrow> Mempool \<Rightarrow> Input list \<Rightarrow> string + Input list" where
  "fillAllInputs env m [] = Inr []"
| "fillAllInputs env m (i # rest) =
     (case (if isSpent m (prev_hash (prevout i)) (prev_index (prevout i)) \<noteq> None then Inr i
            else (case db_getCoin (chain env) (prev_hash (prevout i)) (prev_index (prevout i)) of
                    Inl err \<Rightarrow> Inl err
                  | Inr None \<Rightarrow> Inr i
                  | Inr (Some c) \<Rightarrow> Inr (i\<lparr>coin := Some c\<rparr>))) of
        Inl err \<Rightarrow> Inl err
      | Inr i' \<Rightarrow>
          (case fillAllInputs env m rest of
             Inl err \<Rightarrow> Inl err
           | Inr rest' \<Rightarrow> Inr (i' # rest')))"

definition fillAllCoins :: "Env \<Rightarrow> Mempool \<Rightarrow> TX \<Rightarrow> string + TX" where
  "fillAllCoins env m t =
     (let t' = mempoolFillCoins m t in
      if hasCoins (lib env) t' then Inr t'
      else (case fillAllInputs env m (inputs t') of
              Inl err \<Rightarrow> Inl err
            | Inr ins \<Rightarrow> Inr (t'\<lparr>inputs := ins\<rparr>)))"

text \<open>\<^verbatim>\<open>isDoubleSpend(tx)\<close>: some input's outpoint is in \<^verbatim>\<open>spents\<close>.\<close>

fun isDoubleSpendInputs :: "Mempool \<Rightarrow> Input list \<Rightarrow> bool" where
  "isDoubleSpendInputs m [] = False"
| "isDoubleSpendInputs m (i # rest) =
     (if isSpent m (prev_hash (prevout i)) (prev_index (prevout i)) \<noteq> None then True
      else isDoubleSpendInputs m rest)"

definition isDoubleSpend :: "Mempool \<Rightarrow> TX \<Rightarrow> bool" where
  "isDoubleSpend m t = isDoubleSpendInputs m (inputs t)"

text \<open>
  \<^verbatim>\<open>MempoolEntry.fromTX(tx, height)\<close>. The loop reads \<^verbatim>\<open>tx.inputs[i].coin.height\<close>, which
  throws on an input without a coin.
\<close>

fun hasDependencies :: "Input list \<Rightarrow> error + bool" where
  "hasDependencies [] = Inr False"
| "hasDependencies (i # rest) =
     (case coin i of
        None \<Rightarrow> Inl TypeError
      | Some c \<Rightarrow> if coin_height c = -1 then Inr True else hasDependencies rest)"

definition entryFromTX :: "Env \<Rightarrow> TX \<Rightarrow> int \<Rightarrow> error + MempoolEntry" where
  "entryFromTX env t h =
     (case hasDependencies (inputs t) of
        Inl e \<Rightarrow> Inl e
      | Inr dependencies \<Rightarrow>
          Inr \<lparr>e_tx = t, e_height = h, e_size = getVirtualSize (lib env) t,
               e_priority = getPriority (lib env) t h, e_fee = getFee (lib env) t,
               e_ts = now env, e_chainValue = getChainValue (lib env) t h,
               e_count = 1, e_sizes = getVirtualSize (lib env) t,
               e_fees = getFee (lib env) t, e_dependencies = dependencies\<rparr>)"

text \<open>
  \<^verbatim>\<open>MempoolEntry.prototype.getPriority(height)\<close> and \<^verbatim>\<open>isFree(height)\<close>. The priority is
  a JavaScript number, taken as a real; the division by a modified size of zero gives
  an infinity or \<^verbatim>\<open>NaN\<close>, which are written out.
\<close>

datatype number = Finite real | PosInfinity | NaN

definition entryGetPriority :: "Env \<Rightarrow> MempoolEntry \<Rightarrow> int \<Rightarrow> number" where
  "entryGetPriority env entry h =
     (let heightDelta = h - e_height entry;
          modSize = getModifiedSize (lib env) (e_tx entry) (e_size entry)
      in if modSize = 0 then
           (if heightDelta * e_chainValue entry > 0 then PosInfinity
            else if heightDelta * e_chainValue entry < 0 then Finite 0
            else NaN)
         else
           (let deltaPriority = real_of_int (heightDelta * e_chainValue entry) / real modSize;
                result = e_priority entry + real_of_int \<lfloor>deltaPriority\<rfloor>
            in if result < 0 then Finite 0 else Finite result))"

definition isFree :: "Env \<Rightarrow> MempoolEntry \<Rightarrow> int \<Rightarrow> bool" where
  "isFree env entry h =
     (case entryGetPriority env entry h of
        Finite priority \<Rightarrow> priority > FREE_THRESHOLD (constants env)
      | PosInfinity \<Rightarrow> True
      | NaN \<Rightarrow> False)"

text \<open>
  \<^verbatim>\<open>getMinRate()\<close>: the rolling minimum fee rate. \<open>decayMinRate\<close> is the rate after
  \<^verbatim>\<open>minFeeRate /= Math.pow(2.0, (now - lastFeeUpdate) / halflife | 0); minFeeRate |= 0\<close>.
  \<^verbatim>\<open>x | 0\<close> is the conversion to a 32-bit signed integer; the quotient of the elapsed time
  by the half-life is taken on non-negative numbers (the branch is entered only when
  \<^verbatim>\<open>now > lastFeeUpdate + 10\<close>), with \<^verbatim>\<open>Infinity | 0 = 0\<close> for a half-life of zero.
\<close>

definition toInt32 :: "int \<Rightarrow> int" where
  "toInt32 x = sint (word_of_int x :: 32 word)"

definition truncDiv :: "int \<Rightarrow> int \<Rightarrow> int" where
  "truncDiv a b = sgn a * (\<bar>a\<bar> div b)"

definition decayMinRate :: "Env \<Rightarrow> Mempool \<Rightarrow> int" where
  "decayMinRate env m =
     (let halflife0 = FEE_HALFLIFE (constants env);
          sz = mempoolGetSize env m;
          halflife = (if 4 * sz < mp_maxSize m then drop_bit 2 halflife0
                      else if 2 * sz < mp_maxSize m then drop_bit 1 halflife0
                      else halflife0);
          k = (if halflife = 0 then 0
               else toInt32 ((now env - mp_lastFeeUpdate m) div uint halflife))
      in toInt32 (if 0 \<le> k then truncDiv (mp_minFeeRate m) (2 ^ nat k)
                  else mp_minFeeRate m * 2 ^ nat (- k)))"

definition getMinRate :: "Env \<Rightarrow> Mempool \<Rightarrow> int \<times> Mempool" where
  "getMinRate env m =
     (if \<not> mp_blockSinceBump m \<or> mp_minFeeRate m = 0 then (mp_minFeeRate m, m)
      else if now env > mp_lastFeeUpdate m + 10 then
        (let m1 = m\<lparr>mp_minFeeRate := decayMinRate env m, mp_lastFeeUpdate := now env\<rparr>
         in if 2 * mp_minFeeRate m1 < mp_minReasonableFee m1 then (0, m1\<lparr>mp_minFeeRate := 0\<rparr>)
            else (max (mp_minFeeRate m1) (mp_minReasonableFee m1), m1))
      else (max (mp_minFeeRate m) (mp_minReasonableFee m), m))"

text \<open>
  \<^verbatim>\<open>countAncestors(tx)\<close> calls itself on the previous transactions found in the mempool.
  \<open>self\<close> stands for the nested call.
\<close>

fun countAncestorsLoop :: "(TX \<Rightarrow> nat outcome) \<Rightarrow> Mempool \<Rightarrow> Input list \<Rightarrow> nat \<Rightarrow> nat outcome" where
  "countAncestorsLoop self m [] mx = Returned mx"
| "countAncestorsLoop self m (i # rest) mx =
     (case getTX m (prev_hash (prevout i)) of
        None \<Rightarrow> countAncestorsLoop self m rest mx
      | Some prev \<Rightarrow>
          (case self prev of
             Returned c \<Rightarrow>
               countAncestorsLoop self m rest (if 1 + c > mx then 1 + c else mx)
           | Thrown e \<Rightarrow> Thrown e
           | OutOfFuel \<Rightarrow> OutOfFuel))"

primrec countAncestors :: "nat \<Rightarrow> Mempool \<Rightarrow> TX \<Rightarrow> nat outcome" where
  "countAncestors 0 m t = OutOfFuel"
| "countAncestors (Suc fuel) m t = countAncestorsLoop (countAncestors fuel m) m (inputs t) 0"

text \<open>
  \<^verbatim>\<open>verify(entry, callback)\<close>: the checks of the mempool on a transaction whose coins are
  filled, in the order of the code. The result is what the callback gets (\<open>None\<close> when the
  transaction is accepted) and the mempool, whose fee rate and free-transaction counter
  the checks update. \<^verbatim>\<open>Math.pow(1 - 1 / 600, now - lastTime)\<close> is taken on the reals.
  \<open>verifyScripts\<close> is the last step: the scripts under the standard flags and, if that
  fails, under the mandatory flags. \<open>verifyFees\<close> is the middle part, from
  \<^verbatim>\<open>fee = tx.getFee()\<close> to the check of absurd fees: the minimum fee rate, the priority of
  free transactions, the rate limit on them (\<open>decayFreeCount\<close> is the counter after
  \<^verbatim>\<open>freeCount *= Math.pow(1 - 1 / 600, now - lastTime)\<close>), and the absurd fee.
\<close>

definition verifyScripts :: "Env \<Rightarrow> TX \<Rightarrow> 32 word \<Rightarrow> 32 word \<Rightarrow> failure option" where
  "verifyScripts env t flags mandatory =
     (case verifyAsync (lib env) t flags of
        Inl err \<Rightarrow> Some (Err err)
      | Inr result \<Rightarrow>
          if \<not> result then
            (case verifyAsync (lib env) t mandatory of
               Inl err \<Rightarrow> Some (Err err)
             | Inr result2 \<Rightarrow>
                 if result2 then
                   Some (VerifyError ''nonstandard'' ''non-mandatory-script-verify-flag'' 0 (tx_hash t))
                 else
                   Some (VerifyError ''nonstandard'' ''mandatory-script-verify-flag'' 0 (tx_hash t)))
          else None)"

definition decayFreeCount :: "Env \<Rightarrow> Mempool \<Rightarrow> real" where
  "decayFreeCount env m =
     mp_freeCount m * (1 - 1 / 600) powr (real_of_int (now env - mp_lastTime m))"

definition verifyFees :: "Env \<Rightarrow> MempoolEntry \<Rightarrow> int \<Rightarrow> Mempool \<Rightarrow> failure option \<times> Mempool" where
  "verifyFees env entry h m =
     (let t = e_tx entry;
          fee = getFee (lib env) t;
          modFee = e_fees entry;
          sz = e_size entry;
          minRate = fst (getMinRate env m);
          m1 = snd (getMinRate env m);
          m2 = (if minRate > mp_minRelayFee m1 then m1\<lparr>mp_networkMinRelay := minRate\<rparr> else m1);
          rejectFee = getMinFee (lib env) t sz minRate;
          minRelayFee = getMinFee (lib env) t sz (mp_minRelayFee m2)
      in if rejectFee > 0 \<and> modFee < rejectFee then
           (Some (VerifyError ''insufficientfee'' ''mempool min fee not met'' 0 (tx_hash t)), m2)
         else if mp_relayPriority m2 \<and> modFee < minRelayFee \<and> \<not> isFree env entry h then
           (Some (VerifyError ''insufficientfee'' ''insufficient priority'' 0 (tx_hash t)), m2)
         else if mp_limitFree m2 \<and> modFee < minRelayFee then
           (let m3 = m2\<lparr>mp_freeCount := decayFreeCount env m2, mp_lastTime := now env\<rparr>
            in if mp_freeCount m3 > real (mp_limitFreeRelay m3 * 10 * 1000) then
                 (Some (VerifyError ''insufficientfee'' ''rate limited free transaction'' 0
                    (tx_hash t)), m3)
               else
                 (let m4 = m3\<lparr>mp_freeCount := mp_freeCount m3 + real sz\<rparr>
                  in if mp_rejectAbsurdFees m4 \<and> fee > minRelayFee * 10000 then
                       (Some (VerifyError ''highfee'' ''absurdly-high-fee'' 0 (tx_hash t)), m4)
                     else (None, m4)))
         else if mp_rejectAbsurdFees m2 \<and> fee > minRelayFee * 10000 then
           (Some (VerifyError ''highfee'' ''absurdly-high-fee'' 0 (tx_hash t)), m2)
         else (None, m2))"

definition verify :: "nat \<Rightarrow> Env \<Rightarrow> MempoolEntry \<Rightarrow> Mempool \<Rightarrow> (failure option \<times> Mempool) outcome" where
  "verify fuel env entry m =
     (let h = chain_height (chain env) + 1;
          lockFlags = STANDARD_LOCKTIME_FLAGS (constants env);
          flags = (if state_hasWitness (chain env) then STANDARD_VERIFY_FLAGS (constants env)
                   else STANDARD_VERIFY_FLAGS (constants env) AND NOT (VERIFY_WITNESS (constants env)));
          mandatory = (if state_hasWitness (chain env)
                       then MANDATORY_VERIFY_FLAGS (constants env) OR VERIFY_WITNESS (constants env)
                       else MANDATORY_VERIFY_FLAGS (constants env));
          t = e_tx entry
      in case checkLocks (chain env) t lockFlags of
           Inl err \<Rightarrow> Returned (Some (Err err), m)
         | Inr result \<Rightarrow>
      if \<not> result then
        Returned (Some (VerifyError ''nonstandard'' ''non-BIP68-final'' 0 (tx_hash t)), m)
      else if mp_requireStandard m \<and> \<not> hasStandardInputs (lib env) t then
        Returned (Some (VerifyError ''nonstandard'' ''bad-txns-nonstandard-inputs'' 0 (tx_hash t)), m)
      else if getSigopsCost (lib env) t flags > MAX_SIGOPS_COST (constants env) then
        Returned (Some (VerifyError ''nonstandard'' ''bad-txns-too-many-sigops'' 0 (tx_hash t)), m)
      else
        (case verifyFees env entry h m of
           (Some failed, m') \<Rightarrow> Returned (Some failed, m')
         | (None, m4) \<Rightarrow>
             (case countAncestors fuel m4 t of
                Thrown e \<Rightarrow> Thrown e
              | OutOfFuel \<Rightarrow> OutOfFuel
              | Returned count \<Rightarrow>
                  if count > ANCESTOR_LIMIT (constants env) then
                    Returned (Some (VerifyError ''nonstandard'' ''too-long-mempool-chain'' 0
                                 (tx_hash t)), m4)
                  else
                    (case checkInputs (lib env) t h of
                       Some (reason, score) \<Rightarrow>
                         Returned (Some (VerifyError ''invalid'' reason score (tx_hash t)), m4)
                     | None \<Rightarrow>
                         Returned (verifyScripts env t flags mandatory, m4)))))"

text \<open>
  The red-black tree \<^verbatim>\<open>RBT\<close> (rbt.js) of the times of the entries. The mempool builds it
  with \<^verbatim>\<open>new RBT(timeCmp)\<close>, and the constructor is \<^verbatim>\<open>RBT(location, options)\<close>: the function
  \<^verbatim>\<open>timeCmp\<close> is taken as the location, there are no options, and \<^verbatim>\<open>this.compare\<close> is
  \<^verbatim>\<open>utils.cmp\<close>, the comparison of the environment.

  The tree is represented by the list of its items (key and value) in the order in which
  \<^verbatim>\<open>range\<close> walks them, from \<^verbatim>\<open>min\<close> along \<^verbatim>\<open>successor\<close>. The colours of the nodes and the
  rotations of \<^verbatim>\<open>insertFixup\<close> and \<^verbatim>\<open>removeFixup\<close>, which keep this order, are not
  represented; the descent of \<^verbatim>\<open>insert\<close>, \<^verbatim>\<open>remove\<close> and \<^verbatim>\<open>range\<close> through the nodes is a walk
  along the list, which finds the same item when the comparison orders the keys.

  \<^verbatim>\<open>insert(key, value)\<close> gives a key that compares equal to one of the tree the new value
  and adds no node. A value that is a string is stored as \<^verbatim>\<open>new Buffer(value, 'utf8')\<close>: one
  byte for a character below 128, two bytes for the others.
\<close>

definition utf8 :: "string \<Rightarrow> bytes" where
  "utf8 s = concat (map (\<lambda>c. if of_char c < (128 :: nat) then [of_nat (of_char c)]
                              else [of_nat (192 + of_char c div 64), of_nat (128 + of_char c mod 64)]) s)"

fun rbtInsert :: "(int \<Rightarrow> int \<Rightarrow> int) \<Rightarrow> int \<Rightarrow> bytes \<Rightarrow> (int \<times> bytes) list
    \<Rightarrow> (int \<times> bytes) list" where
  "rbtInsert compareKeys k v [] = [(k, v)]"
| "rbtInsert compareKeys k v (item # items) =
     (if compareKeys k (fst item) = 0 then (fst item, v) # items
      else if compareKeys k (fst item) < 0 then (k, v) # item # items
      else item # rbtInsert compareKeys k v items)"

text \<open>\<^verbatim>\<open>remove(key)\<close> removes the node whose key compares equal, if the descent finds one.\<close>

fun rbtRemove :: "(int \<Rightarrow> int \<Rightarrow> int) \<Rightarrow> int \<Rightarrow> (int \<times> bytes) list \<Rightarrow> (int \<times> bytes) list" where
  "rbtRemove compareKeys k [] = []"
| "rbtRemove compareKeys k (item # items) =
     (if compareKeys k (fst item) = 0 then items
      else if compareKeys k (fst item) < 0 then item # items
      else item # rbtRemove compareKeys k items)"

text \<open>
  \<^verbatim>\<open>range(gte, lte)\<close> starts at the first node whose key is not below \<^verbatim>\<open>gte\<close>, or at the
  least node when \<^verbatim>\<open>gte\<close> is falsy (a bound of 0); it walks on until a key is above \<^verbatim>\<open>lte\<close>,
  or to the end when \<^verbatim>\<open>lte\<close> is falsy. The least node is \<^verbatim>\<open>this.min(root)\<close>, which reads
  \<^verbatim>\<open>z.left.isNull()\<close>: on an empty tree \<^verbatim>\<open>z\<close> is the sentinel, whose \<^verbatim>\<open>left\<close> is \<^verbatim>\<open>null\<close>, and
  the call throws a \<^verbatim>\<open>TypeError\<close>.
\<close>

definition rbtRange :: "(int \<Rightarrow> int \<Rightarrow> int) \<Rightarrow> int \<Rightarrow> int \<Rightarrow> (int \<times> bytes) list
    \<Rightarrow> error + (int \<times> bytes) list" where
  "rbtRange compareKeys gte lte items =
     (if gte = 0 \<and> items = [] then Inl TypeError
      else
        (let start = (if gte \<noteq> 0 then dropWhile (\<lambda>item. compareKeys gte (fst item) > 0) items
                      else items)
         in Inr (if lte \<noteq> 0 then takeWhile (\<lambda>item. \<not> compareKeys (fst item) lte > 0) start
                 else start)))"

text \<open>
  \<^verbatim>\<open>getRange(start, end)\<close>: the entries of the items in the range. The hash of an item is
  read as \<^verbatim>\<open>item.value.toString('hex')\<close>, two hexadecimal digits for each byte of the value;
  an item for which \<^verbatim>\<open>getEntry\<close> finds no entry is removed from the tree.
\<close>

definition hexDigit :: "nat \<Rightarrow> char" where
  "hexDigit n = ''0123456789abcdef'' ! n"

definition toHex :: "bytes \<Rightarrow> string" where
  "toHex b = concat (map (\<lambda>x. [hexDigit (unat x div 16), hexDigit (unat x mod 16)]) b)"

fun getRangeLoop :: "Env \<Rightarrow> (int \<times> bytes) list \<Rightarrow> Mempool \<Rightarrow> MempoolEntry list \<times> Mempool" where
  "getRangeLoop env [] m = ([], m)"
| "getRangeLoop env (item # items) m =
     (case getEntry m (toHex (snd item)) of
        None \<Rightarrow> getRangeLoop env items (m\<lparr>mp_time := rbtRemove (cmp env) (fst item) (mp_time m)\<rparr>)
      | Some entry \<Rightarrow>
          (case getRangeLoop env items m of (entries, m') \<Rightarrow> (entry # entries, m')))"

definition getRange :: "Env \<Rightarrow> int \<Rightarrow> int \<Rightarrow> Mempool
    \<Rightarrow> error + (MempoolEntry list \<times> Mempool)" where
  "getRange env lo hi m =
     (case rbtRange (cmp env) lo hi (mp_time m) of
        Inl e \<Rightarrow> Inl e
      | Inr items \<Rightarrow> Inr (getRangeLoop env items m))"

definition getSnapshot :: "Mempool \<Rightarrow> hash list" where
  "getSnapshot m = map fst (mp_tx m)"

text \<open>
  Orphans. \<^verbatim>\<open>removeOrphan\<close> takes a transaction or a hash; given a hash it looks the
  orphan up and returns if there is none, given a transaction it goes on without a look.
\<close>

definition getOrphan :: "Mempool \<Rightarrow> hash \<Rightarrow> TX option" where
  "getOrphan m h = map_of (mp_orphans m) h"

fun removeWaiting :: "hash \<Rightarrow> hash list \<Rightarrow> (hash \<rightharpoonup> hash list) \<Rightarrow> (hash \<rightharpoonup> hash list)" where
  "removeWaiting h [] w = w"
| "removeWaiting h (prev # rest) w =
     (case w prev of
        None \<Rightarrow> removeWaiting h rest w
      | Some hashes \<Rightarrow>
          (let hashes' = remove1 h hashes
           in if hashes' = [] then removeWaiting h rest (w(prev := None))
              else removeWaiting h rest (w(prev \<mapsto> hashes'))))"

definition removeOrphanTX :: "Env \<Rightarrow> TX \<Rightarrow> Mempool \<Rightarrow> Mempool" where
  "removeOrphanTX env t m =
     (let m1 = m\<lparr>mp_waiting := removeWaiting (tx_hash t) (getPrevout (lib env) t) (mp_waiting m)\<rparr>;
          m2 = m1\<lparr>mp_orphans := AList.delete (tx_hash t) (mp_orphans m1)\<rparr>;
          m3 = emit ''remove orphan'' t m2
      in m3\<lparr>mp_totalOrphans := mp_totalOrphans m3 - 1\<rparr>)"

definition removeOrphanHash :: "Env \<Rightarrow> hash option \<Rightarrow> Mempool \<Rightarrow> Mempool" where
  "removeOrphanHash env h m =
     (case h of
        None \<Rightarrow> m
      | Some h' \<Rightarrow> (case getOrphan m h' of None \<Rightarrow> m | Some t \<Rightarrow> removeOrphanTX env t m))"

text \<open>
  \<^verbatim>\<open>limitOrphans()\<close>: while there are too many orphans, one picked at random among the keys
  taken at the start is removed. \<^verbatim>\<open>orphans[i]\<close> past the end is \<^verbatim>\<open>undefined\<close>, for which
  \<^verbatim>\<open>removeOrphan\<close> does nothing; the loop has no other exit than the count, so each round
  takes one unit of fuel.
\<close>

fun limitOrphansLoop :: "nat \<Rightarrow> Env \<Rightarrow> hash list \<Rightarrow> Mempool \<Rightarrow> Mempool outcome" where
  "limitOrphansLoop fuel env orphans m =
     (if mp_totalOrphans m > MAX_ORPHAN_TX (constants env) then
        (case fuel of
           0 \<Rightarrow> OutOfFuel
         | Suc fuel' \<Rightarrow>
             (let i = rand env 0 (length orphans)
              in limitOrphansLoop fuel' env (take i orphans @ drop (i + 1) orphans)
                   (removeOrphanHash env (arrayGet orphans i) m)))
      else Returned m)"

definition limitOrphans :: "nat \<Rightarrow> Env \<Rightarrow> Mempool \<Rightarrow> Mempool outcome" where
  "limitOrphans fuel env m = limitOrphansLoop fuel env (map fst (mp_orphans m)) m"

text \<open>
  \<^verbatim>\<open>storeOrphan(tx)\<close>. The keys of the object \<^verbatim>\<open>prevout\<close> are the hashes of the previous
  transactions of the inputs without a coin, each once, in the order they first occur.
\<close>

definition missingPrevout :: "TX \<Rightarrow> hash list" where
  "missingPrevout t =
     foldl (\<lambda>acc i. if coin i = None \<and> prev_hash (prevout i) \<notin> set acc
                     then acc @ [prev_hash (prevout i)] else acc) [] (inputs t)"

fun addWaiting :: "hash \<Rightarrow> hash list \<Rightarrow> (hash \<rightharpoonup> hash list) \<Rightarrow> (hash \<rightharpoonup> hash list)" where
  "addWaiting h [] w = w"
| "addWaiting h (prev # rest) w =
     addWaiting h rest (w(prev \<mapsto> (case w prev of None \<Rightarrow> [] | Some hashes \<Rightarrow> hashes) @ [h]))"

definition storeOrphan :: "nat \<Rightarrow> Env \<Rightarrow> TX \<Rightarrow> Mempool \<Rightarrow> Mempool outcome" where
  "storeOrphan fuel env t m =
     (if getSize (lib env) t > 99999 then Returned (emit ''bad orphan'' t m)
      else if missingPrevout t = [] then Thrown (AssertionError '''')
      else
        (let m1 = m\<lparr>mp_waiting := addWaiting (tx_hash t) (missingPrevout t) (mp_waiting m)\<rparr>;
             m2 = m1\<lparr>mp_orphans := AList.update (tx_hash t) t (mp_orphans m1),
                     mp_totalOrphans := mp_totalOrphans m1 + 1\<rparr>
         in limitOrphans fuel env (emit ''add orphan'' t m2)))"

text \<open>
  \<^verbatim>\<open>resolveOrphans(tx)\<close>: the orphans waiting for \<^verbatim>\<open>tx\<close> are filled from it; those that
  have all their coins leave the orphans and are returned.
\<close>

fun resolveOrphansLoop :: "Env \<Rightarrow> TX \<Rightarrow> hash list \<Rightarrow> Mempool \<Rightarrow> TX list \<times> Mempool" where
  "resolveOrphansLoop env t [] m = ([], m)"
| "resolveOrphansLoop env t (orphanHash # rest) m =
     (case getOrphan m orphanHash of
        None \<Rightarrow> resolveOrphansLoop env t rest m
      | Some orphan0 \<Rightarrow>
          (let orphan = txFillCoins (lib env) orphan0 t
           in if hasCoins (lib env) orphan then
                (case resolveOrphansLoop env t rest
                        (m\<lparr>mp_totalOrphans := mp_totalOrphans m - 1,
                           mp_orphans := AList.delete orphanHash (mp_orphans m)\<rparr>) of
                   (resolved, m') \<Rightarrow> (orphan # resolved, m'))
              else resolveOrphansLoop env t rest
                     (m\<lparr>mp_orphans := AList.update orphanHash orphan (mp_orphans m)\<rparr>)))"

definition resolveOrphans :: "Env \<Rightarrow> TX \<Rightarrow> Mempool \<Rightarrow> TX list \<times> Mempool" where
  "resolveOrphans env t m =
     (case mp_waiting m (tx_hash t) of
        None \<Rightarrow> ([], m)
      | Some hashes \<Rightarrow>
          (case resolveOrphansLoop env t hashes m of
             (resolved, m') \<Rightarrow> (resolved, m'\<lparr>mp_waiting := (mp_waiting m')(tx_hash t := None)\<rparr>)))"

text \<open>
  \<^verbatim>\<open>_addUnchecked(entry)\<close>: the entry, its time, the spenders of its inputs and the coins
  of its outputs go into the maps. \<open>index\<close> counts the inputs and outputs.
\<close>

fun addSpents :: "TX \<Rightarrow> nat \<Rightarrow> Input list \<Rightarrow> Mempool \<Rightarrow> Mempool outcome" where
  "addSpents t index [] m = Returned m"
| "addSpents t index (i # rest) m =
     (if isCoinbase t then Returned m
      else if coin i = None then Thrown (AssertionError '''')
      else
        (let k = key (prev_hash (prevout i)) (prev_index (prevout i))
         in addSpents t (index + 1) rest
              (m\<lparr>mp_coins := (mp_coins m)(k := None),
                 mp_spents := (mp_spents m)(k \<mapsto> \<lparr>prev_hash = tx_hash t, prev_index = index\<rparr>)\<rparr>)))"

fun addCoins :: "Env \<Rightarrow> TX \<Rightarrow> nat \<Rightarrow> Output list \<Rightarrow> Mempool \<Rightarrow> Mempool outcome" where
  "addCoins env t index [] m = Returned m"
| "addCoins env t index (out # rest) m =
     (if isUnspendable (lib env) (out_script out) then addCoins env t (index + 1) rest m
      else
        (case coinFromTX t index of
           Inl e \<Rightarrow> Thrown e
         | Inr c \<Rightarrow>
             addCoins env t (index + 1) rest
               (m\<lparr>mp_coins := (mp_coins m)(key (tx_hash t) index \<mapsto> c)\<rparr>)))"

definition addUnchecked' :: "Env \<Rightarrow> MempoolEntry \<Rightarrow> Mempool \<Rightarrow> Mempool outcome" where
  "addUnchecked' env entry m =
     (let t = e_tx entry;
          m1 = m\<lparr>mp_tx := AList.update (tx_hash t) (entryToRaw entry) (mp_tx m),
                 mp_time := rbtInsert (cmp env) (e_ts entry) (utf8 (tx_hash t)) (mp_time m)\<rparr>
      in case addSpents t 0 (inputs t) m1 of
           Returned m2 \<Rightarrow> addCoins env t 0 (outputs t) m2
         | Thrown e \<Rightarrow> Thrown e
         | OutOfFuel \<Rightarrow> OutOfFuel)"

text \<open>
  \<^verbatim>\<open>addUnchecked(entry, callback)\<close>: the entry is added, the counters are raised, \<^verbatim>\<open>tx\<close> and
  \<^verbatim>\<open>add tx\<close> are emitted, and the orphans that the transaction resolves are verified and
  added in turn, by a nested call (\<open>self\<close>). An orphan that fails verification is reported
  by an event; the callback gets no error.
\<close>

fun addResolved :: "nat \<Rightarrow> (MempoolEntry \<Rightarrow> Mempool \<Rightarrow> Mempool outcome) \<Rightarrow> Env \<Rightarrow> TX list
    \<Rightarrow> Mempool \<Rightarrow> Mempool outcome" where
  "addResolved fuel self env [] m = Returned m"
| "addResolved fuel self env (t # rest) m =
     (case entryFromTX env t (chain_height (chain env)) of
        Inl e \<Rightarrow> Thrown e
      | Inr entry \<Rightarrow>
          (case verify fuel env entry m of
             Thrown e \<Rightarrow> Thrown e
           | OutOfFuel \<Rightarrow> OutOfFuel
           | Returned (Some (VerifyError c r s h), m1) \<Rightarrow>
               addResolved fuel self env rest (emit ''bad orphan'' t m1)
           | Returned (Some (Err err), m1) \<Rightarrow>
               addResolved fuel self env rest (m1\<lparr>mp_events := mp_events m1 @ [EmitError (Err err)]\<rparr>)
           | Returned (None, m1) \<Rightarrow>
               (case self entry m1 of
                  Returned m2 \<Rightarrow> addResolved fuel self env rest m2
                | Thrown e \<Rightarrow> Thrown e
                | OutOfFuel \<Rightarrow> OutOfFuel)))"

primrec addUnchecked :: "nat \<Rightarrow> Env \<Rightarrow> MempoolEntry \<Rightarrow> Mempool \<Rightarrow> Mempool outcome" where
  "addUnchecked 0 env entry m = OutOfFuel"
| "addUnchecked (Suc fuel) env entry m =
     (case addUnchecked' env entry m of
        Thrown e \<Rightarrow> Thrown e
      | OutOfFuel \<Rightarrow> OutOfFuel
      | Returned m1 \<Rightarrow>
          (let m2 = m1\<lparr>mp_spent := mp_spent m1 + int (length (inputs (e_tx entry))),
                       mp_size := mp_size m1 + memUsage env m1 (e_tx entry),
                       mp_total := mp_total m1 + 1\<rparr>;
               m3 = emit ''add tx'' (e_tx entry) (emit ''tx'' (e_tx entry) m2)
           in case resolveOrphans env (e_tx entry) m3 of
                (resolved, m4) \<Rightarrow> addResolved fuel (addUnchecked fuel env) env resolved m4))"

text \<open>
  \<^verbatim>\<open>_removeSpenders(entry, limit, callback)\<close>: for a limited transaction, the mempool
  transactions that spend its outputs are removed first, each by a nested call of
  \<^verbatim>\<open>removeUnchecked\<close> (\<open>self\<close>). The callback gets the error of a nested call, if any.
\<close>

fun removeSpendersLoop :: "(MempoolEntry \<Rightarrow> Mempool \<Rightarrow> (string option \<times> Mempool) outcome)
    \<Rightarrow> hash \<Rightarrow> nat \<Rightarrow> Output list \<Rightarrow> Mempool \<Rightarrow> (string option \<times> Mempool) outcome" where
  "removeSpendersLoop self h index [] m = Returned (None, m)"
| "removeSpendersLoop self h index (out # rest) m =
     (case isSpent m h index of
        None \<Rightarrow> removeSpendersLoop self h (index + 1) rest m
      | Some spender \<Rightarrow>
          (case getEntry m (prev_hash spender) of
             None \<Rightarrow> removeSpendersLoop self h (index + 1) rest m
           | Some entry \<Rightarrow>
               (case self entry m of
                  Returned (None, m') \<Rightarrow> removeSpendersLoop self h (index + 1) rest m'
                | Returned (Some err, m') \<Rightarrow> Returned (Some err, m')
                | Thrown e \<Rightarrow> Thrown e
                | OutOfFuel \<Rightarrow> OutOfFuel)))"

definition removeSpenders :: "(MempoolEntry \<Rightarrow> Mempool \<Rightarrow> (string option \<times> Mempool) outcome)
    \<Rightarrow> MempoolEntry \<Rightarrow> bool \<Rightarrow> Mempool \<Rightarrow> (string option \<times> Mempool) outcome" where
  "removeSpenders self entry limit m =
     (if \<not> limit then Returned (None, m)
      else removeSpendersLoop self (tx_hash (e_tx entry)) 0 (outputs (e_tx entry)) m)"

text \<open>
  \<^verbatim>\<open>_removeUnchecked(entry, limit, callback)\<close>: after the spenders, the entry and its time
  are deleted, the inputs leave \<^verbatim>\<open>spents\<close> (and, for a limited transaction, the coins they
  spent come back if they were unconfirmed), and the coins of the outputs are deleted.
\<close>

fun removeSpents :: "TX \<Rightarrow> bool \<Rightarrow> Input list \<Rightarrow> Mempool \<Rightarrow> Mempool outcome" where
  "removeSpents t limit [] m = Returned m"
| "removeSpents t limit (i # rest) m =
     (if isCoinbase t then Returned m
      else
        (let k = key (prev_hash (prevout i)) (prev_index (prevout i));
             m1 = m\<lparr>mp_spents := (mp_spents m)(k := None)\<rparr>
         in if \<not> limit then removeSpents t limit rest m1
            else (case coin i of
                    None \<Rightarrow> Thrown (AssertionError '''')
                  | Some c \<Rightarrow>
                      if coin_height c \<noteq> -1 then removeSpents t limit rest m1
                      else removeSpents t limit rest (m1\<lparr>mp_coins := (mp_coins m1)(k \<mapsto> c)\<rparr>))))"

fun removeCoins :: "Env \<Rightarrow> TX \<Rightarrow> nat \<Rightarrow> Output list \<Rightarrow> Mempool \<Rightarrow> Mempool" where
  "removeCoins env t index [] m = m"
| "removeCoins env t index (out # rest) m =
     (if isUnspendable (lib env) (out_script out) then removeCoins env t (index + 1) rest m
      else removeCoins env t (index + 1) rest
             (m\<lparr>mp_coins := (mp_coins m)(key (tx_hash t) index := None)\<rparr>))"

definition removeUnchecked' :: "(MempoolEntry \<Rightarrow> Mempool \<Rightarrow> (string option \<times> Mempool) outcome)
    \<Rightarrow> Env \<Rightarrow> MempoolEntry \<Rightarrow> bool \<Rightarrow> Mempool \<Rightarrow> (string option \<times> Mempool) outcome" where
  "removeUnchecked' self env entry limit m =
     (case removeSpenders self entry limit m of
        Thrown e \<Rightarrow> Thrown e
      | OutOfFuel \<Rightarrow> OutOfFuel
      | Returned (Some err, m') \<Rightarrow> Returned (Some err, m')
      | Returned (None, m1) \<Rightarrow>
          (let t = e_tx entry;
               m2 = m1\<lparr>mp_tx := AList.delete (tx_hash t) (mp_tx m1),
                      mp_time := rbtRemove (cmp env) (e_ts entry) (mp_time m1)\<rparr>
           in case removeSpents t limit (inputs t) m2 of
                Thrown e \<Rightarrow> Thrown e
              | OutOfFuel \<Rightarrow> OutOfFuel
              | Returned m3 \<Rightarrow> Returned (None, removeCoins env t 0 (outputs t) m3)))"

text \<open>
  \<^verbatim>\<open>removeUnchecked(entry, limit, callback)\<close>: the coins of the entry's transaction are
  filled from the mempool's and the chain's history, the transaction is taken out of the
  orphans, the entry is removed, the counters are lowered, a limited transaction raises
  the minimum fee rate, and \<^verbatim>\<open>remove tx\<close> is emitted before the callback is called.
\<close>

primrec removeUnchecked :: "nat \<Rightarrow> Env \<Rightarrow> bool \<Rightarrow> MempoolEntry \<Rightarrow> Mempool
    \<Rightarrow> (string option \<times> Mempool) outcome" where
  "removeUnchecked 0 env limit entry0 m = OutOfFuel"
| "removeUnchecked (Suc fuel) env limit entry0 m =
     (case fillAllHistory env m (e_tx entry0) of
        Thrown e \<Rightarrow> Thrown e
      | OutOfFuel \<Rightarrow> OutOfFuel
      | Returned (Inl err) \<Rightarrow> Returned (Some err, m)
      | Returned (Inr t) \<Rightarrow>
          (let entry = entry0\<lparr>e_tx := t\<rparr>;
               m1 = removeOrphanTX env t m
           in case removeUnchecked' (removeUnchecked fuel env limit) env entry limit m1 of
                Thrown e \<Rightarrow> Thrown e
              | OutOfFuel \<Rightarrow> OutOfFuel
              | Returned (Some err, m') \<Rightarrow> Returned (Some err, m')
              | Returned (None, m2) \<Rightarrow>
                  (let m3 = m2\<lparr>mp_spent := mp_spent m2 - int (length (inputs t)),
                               mp_size := mp_size m2 - memUsage env m2 t,
                               mp_total := mp_total m2 - 1\<rparr>;
                       rate = getRate (lib env) (e_sizes entry) (e_fees entry) + mp_minReasonableFee m3;
                       m4 = (if limit \<and> rate > mp_minFeeRate m3
                             then m3\<lparr>mp_minFeeRate := rate, mp_blockSinceBump := False\<rparr>
                             else m3)
                   in Returned (None, emit ''remove tx'' t m4))))"

text \<open>
  \<^verbatim>\<open>limitMempoolSize(entryHash, callback)\<close>: nothing to do within the bound. Otherwise the
  entries older than \<^verbatim>\<open>MEMPOOL_EXPIRY\<close> are removed, oldest first, then the entries in the
  order of \<^verbatim>\<open>getSnapshot()\<close>, each loop stopping as soon as the size is within the bound.
  The callback gets an error, or whether the transaction that started the trim was one of
  those removed.
\<close>

fun limitExpired :: "nat \<Rightarrow> Env \<Rightarrow> hash \<Rightarrow> MempoolEntry list \<Rightarrow> bool \<Rightarrow> Mempool
    \<Rightarrow> (string option \<times> bool \<times> bool \<times> Mempool) outcome" where
  "limitExpired fuel env entryHash [] trimmed m = Returned (None, False, trimmed, m)"
| "limitExpired fuel env entryHash (entry # rest) trimmed m =
     (if mempoolGetSize env m \<le> mp_maxSize m then Returned (None, True, trimmed, m)
      else
        (let trimmed' = (if \<not> trimmed then tx_hash (e_tx entry) = entryHash else trimmed)
         in case removeUnchecked fuel env True entry m of
              Thrown e \<Rightarrow> Thrown e
            | OutOfFuel \<Rightarrow> OutOfFuel
            | Returned (Some err, m') \<Rightarrow> Returned (Some err, True, trimmed', m')
            | Returned (None, m') \<Rightarrow> limitExpired fuel env entryHash rest trimmed' m'))"

fun limitSnapshot :: "nat \<Rightarrow> Env \<Rightarrow> hash \<Rightarrow> hash list \<Rightarrow> bool \<Rightarrow> Mempool
    \<Rightarrow> (string option \<times> bool \<times> Mempool) outcome" where
  "limitSnapshot fuel env entryHash [] trimmed m = Returned (None, trimmed, m)"
| "limitSnapshot fuel env entryHash (h # rest) trimmed m =
     (if mempoolGetSize env m \<le> mp_maxSize m then Returned (None, trimmed, m)
      else
        (case getEntry m h of
           None \<Rightarrow> limitSnapshot fuel env entryHash rest trimmed m
         | Some entry \<Rightarrow>
             (let trimmed' = (if \<not> trimmed then h = entryHash else trimmed)
              in case removeUnchecked fuel env True entry m of
                   Thrown e \<Rightarrow> Thrown e
                 | OutOfFuel \<Rightarrow> OutOfFuel
                 | Returned (Some err, m') \<Rightarrow> Returned (Some err, trimmed', m')
                 | Returned (None, m') \<Rightarrow> limitSnapshot fuel env entryHash rest trimmed' m')))"

definition limitMempoolSize :: "nat \<Rightarrow> Env \<Rightarrow> hash \<Rightarrow> Mempool
    \<Rightarrow> (string option \<times> bool \<times> Mempool) outcome" where
  "limitMempoolSize fuel env entryHash m =
     (if mempoolGetSize env m \<le> mp_maxSize m then Returned (None, False, m)
      else
        (case getRange env 0 (now env - MEMPOOL_EXPIRY (constants env)) m of
           Inl e \<Rightarrow> Thrown e
         | Inr (entries, m0) \<Rightarrow>
        (case limitExpired fuel env entryHash entries False m0 of
           Thrown e \<Rightarrow> Thrown e
         | OutOfFuel \<Rightarrow> OutOfFuel
         | Returned (Some err, done, trimmed, m1) \<Rightarrow> Returned (Some err, trimmed, m1)
         | Returned (None, True, trimmed, m1) \<Rightarrow> Returned (None, trimmed, m1)
         | Returned (None, False, trimmed, m1) \<Rightarrow>
             if mempoolGetSize env m1 \<le> mp_maxSize m1 then Returned (None, trimmed, m1)
             else limitSnapshot fuel env entryHash (getSnapshot m1) trimmed m1)))"

text \<open>
  \<^verbatim>\<open>addTX(tx, callback)\<close>: the admission of a transaction. The result is what the callback
  gets (\<open>None\<close> when there is no error) and the mempool. The lock is taken as free.
\<close>

definition addTX :: "nat \<Rightarrow> Env \<Rightarrow> TX \<Rightarrow> Mempool \<Rightarrow> (failure option \<times> Mempool) outcome" where
  "addTX fuel env t m =
     (let lockFlags = STANDARD_LOCKTIME_FLAGS (constants env);
          h = tx_hash t
      in if tx_ts t \<noteq> 0 then
           Returned (Some (VerifyError ''alreadyknown'' ''txn-already-known'' 0 h), m)
         else case isSane (lib env) t of
           Some (reason, score) \<Rightarrow> Returned (Some (VerifyError ''invalid'' reason score h), m)
         | None \<Rightarrow>
         if isCoinbase t then
           Returned (Some (VerifyError ''invalid'' ''coinbase'' 100 h), m)
         else if mp_requireStandard m \<and> \<not> state_hasCSV (chain env) \<and> tx_version t \<ge> 2 then
           Returned (Some (VerifyError ''nonstandard'' ''premature-version2-tx'' 0 h), m)
         else if \<not> state_hasWitness (chain env) \<and> \<not> mp_prematureWitness m
                 \<and> txHasWitness (lib env) t then
           Returned (Some (VerifyError ''nonstandard'' ''no-witness-yet'' 0 h), m)
         else case (if mp_requireStandard m then isStandard (lib env) t else None) of
           Some (reason, score) \<Rightarrow> Returned (Some (VerifyError ''nonstandard'' reason score h), m)
         | None \<Rightarrow>
         (case checkFinal (chain env) t lockFlags of
           Inl err \<Rightarrow> Returned (Some (Err err), m)
         | Inr isFinal \<Rightarrow>
         if \<not> isFinal then
           Returned (Some (VerifyError ''nonstandard'' ''non-final'' 0 h), m)
         else if has m h then
           Returned (Some (VerifyError ''alreadyknown'' ''txn-already-in-mempool'' 0 h), m)
         else case db_hasCoins (chain env) h of
           Inl err \<Rightarrow> Returned (Some (Err err), m)
         | Inr exists \<Rightarrow>
         if exists then
           Returned (Some (VerifyError ''alreadyknown'' ''txn-already-known'' 0 h), m)
         else if isDoubleSpend m t then
           Returned (Some (VerifyError ''duplicate'' ''bad-txns-inputs-spent'' 0 h), m)
         else case fillAllCoins env m t of
           Inl err \<Rightarrow> Returned (Some (Err err), m)
         | Inr t1 \<Rightarrow>
         if \<not> hasCoins (lib env) t1 then
           (case storeOrphan fuel env t1 m of
              Returned m' \<Rightarrow> Returned (None, m')
            | Thrown e \<Rightarrow> Thrown e
            | OutOfFuel \<Rightarrow> OutOfFuel)
         else case entryFromTX env t1 (chain_height (chain env)) of
           Inl e \<Rightarrow> Thrown e
         | Inr entry \<Rightarrow>
         (case verify fuel env entry m of
           Thrown e \<Rightarrow> Thrown e
         | OutOfFuel \<Rightarrow> OutOfFuel
         | Returned (Some err, m1) \<Rightarrow> Returned (Some err, m1)
         | Returned (None, m1) \<Rightarrow>
         (case addUnchecked fuel env entry m1 of
           Thrown e \<Rightarrow> Thrown e
         | OutOfFuel \<Rightarrow> OutOfFuel
         | Returned m2 \<Rightarrow>
         (case limitMempoolSize fuel env h m2 of
           Thrown e \<Rightarrow> Thrown e
         | OutOfFuel \<Rightarrow> OutOfFuel
         | Returned (Some err, trimmed, m3) \<Rightarrow> Returned (Some (Err err), m3)
         | Returned (None, trimmed, m3) \<Rightarrow>
             if trimmed then
               Returned (Some (VerifyError ''insufficientfee'' ''mempool full'' 0 h), m3)
             else Returned (None, m3))))))"

text \<open>
  A block as the mempool sees it: its hash, its height and its transactions.
  \<^verbatim>\<open>addBlock(block, callback)\<close> goes through the transactions from the last to the first:
  a coinbase is skipped, a transaction that is not in the mempool is taken out of the
  orphans, and one that is in the mempool is removed by \<^verbatim>\<open>removeUnchecked(entry, false)\<close>,
  whose callback emits \<^verbatim>\<open>confirmed\<close>.
\<close>

record Block =
  block_hash :: hash
  block_height :: int
  txs :: "TX list"

fun addBlockLoop :: "nat \<Rightarrow> Env \<Rightarrow> TX list \<Rightarrow> Mempool \<Rightarrow> (string option \<times> Mempool) outcome" where
  "addBlockLoop fuel env [] m = Returned (None, m)"
| "addBlockLoop fuel env (t # rest) m =
     (if isCoinbase t then addBlockLoop fuel env rest m
      else
        (case getEntry m (tx_hash t) of
           None \<Rightarrow> addBlockLoop fuel env rest (removeOrphanHash env (Some (tx_hash t)) m)
         | Some entry \<Rightarrow>
             (case removeUnchecked fuel env False entry m of
                Thrown e \<Rightarrow> Thrown e
              | OutOfFuel \<Rightarrow> OutOfFuel
              | Returned (Some err, m') \<Rightarrow> Returned (Some err, m')
              | Returned (None, m') \<Rightarrow> addBlockLoop fuel env rest (emit ''confirmed'' t m'))))"

definition addBlock :: "nat \<Rightarrow> Env \<Rightarrow> Block \<Rightarrow> Mempool \<Rightarrow> (string option \<times> Mempool) outcome" where
  "addBlock fuel env block m =
     (case addBlockLoop fuel env (rev (txs block)) m of
        Thrown e \<Rightarrow> Thrown e
      | OutOfFuel \<Rightarrow> OutOfFuel
      | Returned (Some err, m') \<Rightarrow> Returned (Some err, m')
      | Returned (None, m') \<Rightarrow>
          Returned (None, m'\<lparr>mp_blockSinceBump := True, mp_lastFeeUpdate := now env\<rparr>))"



text \<open>
  The checks of \<^verbatim>\<open>addTX\<close> that come before the double-spend check, all passed: the
  transaction is unconfirmed, sane, not a coinbase, not a premature version-2 or witness
  transaction, standard where that is required, final, in neither the mempool (nor its
  orphans, nor the locker's queue) nor the chain.
\<close>

definition reachesDoubleSpendCheck :: "Env \<Rightarrow> Mempool \<Rightarrow> TX \<Rightarrow> bool" where
  "reachesDoubleSpendCheck env m t =
     (tx_ts t = 0
      \<and> isSane (lib env) t = None
      \<and> \<not> isCoinbase t
      \<and> \<not> (mp_requireStandard m \<and> \<not> state_hasCSV (chain env) \<and> tx_version t \<ge> 2)
      \<and> \<not> (\<not> state_hasWitness (chain env) \<and> \<not> mp_prematureWitness m \<and> txHasWitness (lib env) t)
      \<and> (if mp_requireStandard m then isStandard (lib env) t else None) = None
      \<and> checkFinal (chain env) t (STANDARD_LOCKTIME_FLAGS (constants env)) = Inr True
      \<and> \<not> has m (tx_hash t)
      \<and> db_hasCoins (chain env) (tx_hash t) = Inr False)"

text \<open>
  An event list in which every event named \<open>b\<close> comes right after an event named \<open>a\<close>
  for the same transaction.
\<close>

definition precededBy :: "string \<Rightarrow> string \<Rightarrow> Event list \<Rightarrow> bool" where
  "precededBy a b evs =
     (\<forall>i<length evs. \<forall>h. evs ! i = Emit b h \<longrightarrow> 0 < i \<and> evs ! (i - 1) = Emit a h)"

section \<open>Example values\<close>

text \<open>
  A small world to run the mempool in: constants, a chain at height 100 whose database
  holds one coin, output 0 of transaction \<open>c0\<close>, and transaction methods that accept
  everything (the scripts verify or not as \<open>scriptsOk\<close> says). Keys are compared by their
  difference, as \<^verbatim>\<open>timeCmp\<close> does.
\<close>

definition exConstants :: Constants where
  "exConstants = \<lparr>STANDARD_LOCKTIME_FLAGS = 3, STANDARD_VERIFY_FLAGS = 0x1fff,
     MANDATORY_VERIFY_FLAGS = 1, VERIFY_WITNESS = 0x800, MAX_SIGOPS_COST = 80000,
     ANCESTOR_LIMIT = 25, MEMPOOL_EXPIRY = 259200, FEE_HALFLIFE = 43200, MAX_ORPHAN_TX = 100,
     FREE_THRESHOLD = 57600000, ptrSize = 8\<rparr>"

definition exCoin :: Coin where
  "exCoin = \<lparr>coin_version = 1, coin_height = 90, coin_value = 50000, coin_script = [0x51],
     coin_coinbase = False, coin_hash = ''c0'', coin_index = 0\<rparr>"

definition exChain :: Chain where
  "exChain = \<lparr>chain_height = 100, state_hasCSV = True, state_hasWitness = False,
     checkFinal = (\<lambda>t f. Inr True), checkLocks = (\<lambda>t f. Inr True),
     db_hasCoins = (\<lambda>h. Inr False),
     db_getCoin = (\<lambda>h i. if h = ''c0'' \<and> i = 0 then Inr (Some exCoin) else Inr None)\<rparr>"

definition exLib :: "bool \<Rightarrow> TXLib" where
  "exLib scriptsOk = \<lparr>isSane = (\<lambda>t. None), txHasWitness = (\<lambda>t. False), isStandard = (\<lambda>t. None),
     hasStandardInputs = (\<lambda>t. True), getSigopsCost = (\<lambda>t f. 4), getFee = (\<lambda>t. 10000),
     getMinFee = (\<lambda>t sz rate. rate), checkInputs = (\<lambda>t h. None),
     verifyAsync = (\<lambda>t f. Inr scriptsOk), getSize = (\<lambda>t. 200), getVirtualSize = (\<lambda>t. 200),
     getPriority = (\<lambda>t h. 0), getChainValue = (\<lambda>t h. 0), getModifiedSize = (\<lambda>t sz. sz),
     getRate = (\<lambda>sz fee. fee),
     getPrevout = (\<lambda>t. map (\<lambda>i. prev_hash (prevout i)) (inputs t)),
     hasCoins = (\<lambda>t. list_all (\<lambda>i. coin i \<noteq> None) (inputs t)),
     txFillCoins = (\<lambda>orphan t. orphan), isUnspendable = (\<lambda>s. False)\<rparr>"

definition exEnv :: "bool \<Rightarrow> Env" where
  "exEnv scriptsOk = \<lparr>constants = exConstants, chain = exChain, lib = exLib scriptsOk, now = 1000,
     rand = (\<lambda>lo hi. lo), cmp = (\<lambda>a b. a - b)\<rparr>"

text \<open>
  The mempool as the constructor \<^verbatim>\<open>Mempool(options)\<close> leaves it, for a given
  \<^verbatim>\<open>maxSize\<close>, \<^verbatim>\<open>requireStandard\<close>, minimum relay fee and time of construction.
\<close>

definition newMempool :: "int \<Rightarrow> bool \<Rightarrow> int \<Rightarrow> int \<Rightarrow> Mempool" where
  "newMempool maxSize requireStandard minRelay t0 =
   \<lparr>mp_size = 0, mp_waiting = Map.empty, mp_orphans = [], mp_totalOrphans = 0,
     mp_spent = 0, mp_total = 0, mp_tx = [], mp_spents = Map.empty, mp_coins = Map.empty,
     mp_time = [], mp_freeCount = 0, mp_lastTime = 0, mp_limitFree = True, mp_limitFreeRelay = 15,
     mp_relayPriority = True, mp_requireStandard = requireStandard, mp_rejectAbsurdFees = True,
     mp_prematureWitness = False, mp_accurateMemory = False, mp_maxSize = maxSize,
     mp_blockSinceBump = False, mp_lastFeeUpdate = t0, mp_minFeeRate = 0,
     mp_minReasonableFee = minRelay, mp_minRelayFee = minRelay, mp_networkMinRelay = minRelay,
     mp_pending = [], mp_events = []\<rparr>"

text \<open>
  An unconfirmed transaction with the given hash and block time that spends output 0 of
  \<open>c0\<close>, before and after its coin is filled; the entry made of it at time 1000 and
  height 100; and the mempool that holds this entry for the hash \<open>a1\<close>.
\<close>

definition exTX :: "hash \<Rightarrow> nat \<Rightarrow> TX" where
  "exTX h t = \<lparr>tx_hash = h, tx_version = 1, tx_height = -1, tx_ts = t,
      inputs = [\<lparr>prevout = \<lparr>prev_hash = ''c0'', prev_index = 0\<rparr>, coin = None,
                 in_script = [0x51], witness = []\<rparr>],
      outputs = [\<lparr>out_value = 40000, out_script = [0x51]\<rparr>]\<rparr>"

definition exFilledTX :: "hash \<Rightarrow> TX" where
  "exFilledTX h = \<lparr>tx_hash = h, tx_version = 1, tx_height = -1, tx_ts = 0,
      inputs = [\<lparr>prevout = \<lparr>prev_hash = ''c0'', prev_index = 0\<rparr>, coin = Some exCoin,
                 in_script = [0x51], witness = []\<rparr>],
      outputs = [\<lparr>out_value = 40000, out_script = [0x51]\<rparr>]\<rparr>"

definition exEntry :: "TX \<Rightarrow> MempoolEntry" where
  "exEntry t = \<lparr>e_tx = t, e_height = 100, e_size = 200, e_priority = 0, e_fee = 10000,
     e_ts = 1000, e_chainValue = 0, e_count = 1, e_sizes = 200, e_fees = 10000,
     e_dependencies = False\<rparr>"

definition exPool :: Mempool where
  "exPool = (newMempool 300000000 True 1000 900)
     \<lparr>mp_size := 160, mp_spent := 1, mp_total := 1,
      mp_tx := [(''a1'', exEntry (exTX ''a1'' 0))],
      mp_spents := [''c00'' \<mapsto> \<lparr>prev_hash = ''a1'', prev_index = 0\<rparr>],
      mp_coins := [''a10'' \<mapsto> \<lparr>coin_version = 1, coin_height = -1, coin_value = 40000,
         coin_script = [0x51], coin_coinbase = False, coin_hash = ''a1'', coin_index = 0\<rparr>],
      mp_time := [(1000, utf8 ''a1'')],
      mp_events := [Emit ''tx'' ''a1'', Emit ''add tx'' ''a1'']\<rparr>"

text \<open>
  Two mempools that differ at most in the minimum fee rate, the time of its last update,
  the network's minimum relay rate and the counter and time of the free-transaction limit:
  the fields that the checks of \<^verbatim>\<open>verify\<close> write.
\<close>

definition feesOnly :: "Mempool \<Rightarrow> Mempool \<Rightarrow> bool" where
  "feesOnly m m' =
     (m' = m\<lparr>mp_minFeeRate := mp_minFeeRate m', mp_lastFeeUpdate := mp_lastFeeUpdate m',
             mp_networkMinRelay := mp_networkMinRelay m', mp_freeCount := mp_freeCount m',
             mp_lastTime := mp_lastTime m'\<rparr>)"

text \<open>
  A nested call of \<^verbatim>\<open>addUnchecked\<close> that, when it returns, has only appended events in
  which every \<open>add tx\<close> comes right after the \<open>tx\<close> of the same transaction.
\<close>

definition admits :: "(MempoolEntry \<Rightarrow> Mempool \<Rightarrow> Mempool outcome) \<Rightarrow> bool" where
  "admits self = (\<forall>entry m m'. self entry m = Returned m' \<longrightarrow>
     (\<exists>new. mp_events m' = mp_events m @ new \<and> precededBy ''tx'' ''add tx'' new))"

text \<open>
  The map \<^verbatim>\<open>tx\<close> is keyed by the hashes of its transactions: every entry is stored
  under the hash of its own transaction. \<^verbatim>\<open>_addUnchecked\<close> stores entries so.
\<close>

definition keysMatch :: "Mempool \<Rightarrow> bool" where
  "keysMatch m = (\<forall>p\<in>set (mp_tx m). tx_hash (e_tx (snd p)) = fst p)"

text \<open>
  A nested call of \<^verbatim>\<open>removeUnchecked\<close> that, when it returns, has added nothing to the
  map \<^verbatim>\<open>tx\<close>.
\<close>

definition shrinks :: "(MempoolEntry \<Rightarrow> Mempool \<Rightarrow> (string option \<times> Mempool) outcome) \<Rightarrow> bool" where
  "shrinks self = (\<forall>entry m r m'. self entry m = Returned (r, m') \<longrightarrow>
     set (mp_tx m') \<subseteq> set (mp_tx m))"

text \<open>
  In a list of events, the event \<open>a\<close> of a transaction is somewhere immediately followed by
  the event \<open>b\<close> of the same transaction.
\<close>

definition followedBy :: "string \<Rightarrow> string \<Rightarrow> hash \<Rightarrow> Event list \<Rightarrow> bool" where
  "followedBy a b h evs =
     (\<exists>i<length evs - 1. evs ! i = Emit a h \<and> evs ! (i + 1) = Emit b h)"

text \<open>The events of the mempool that a call returns, if it returns.\<close>

definition returnedEvents :: "('a \<times> Mempool) outcome \<Rightarrow> Event list option" where
  "returnedEvents out = (case out of Returned (r, m) \<Rightarrow> Some (mp_events m) | _ \<Rightarrow> None)"

text \<open>A block at height 101 that confirms the transaction \<open>a1\<close>.\<close>

definition exBlock :: Block where
  "exBlock = \<lparr>block_hash = ''b1'', block_height = 101, txs = [exTX ''a1'' 0]\<rparr>"



text \<open>
  What a call hands to its callback, with the memory usage, the bound and the hashes of
  the transactions of the mempool it leaves, if it returns.
\<close>

definition returnedUsage :: "Env \<Rightarrow> ('a \<times> Mempool) outcome \<Rightarrow> ('a \<times> int \<times> int \<times> hash list) option" where
  "returnedUsage env out =
     (case out of
        Returned (r, m) \<Rightarrow> Some (r, mempoolGetSize env m, mp_maxSize m, map fst (mp_tx m))
      | _ \<Rightarrow> None)"


definition exOverfull :: Mempool where
  "exOverfull = exPool\<lparr>mp_maxSize := 100,
     mp_tx := [(''a1'', (exEntry (exTX ''a1'' 0))\<lparr>e_height := 101\<rparr>)],
     mp_events := [Emit ''tx'' ''a1'', Emit ''add tx'' ''a1'', Emit ''unconfirmed'' ''a1'']\<rparr>"

definition exOrphanTX :: TX where
  "exOrphanTX = \<lparr>tx_hash = ''d4'', tx_version = 1, tx_height = -1, tx_ts = 0,
      inputs = [\<lparr>prevout = \<lparr>prev_hash = ''zz'', prev_index = 0\<rparr>, coin = None,
                 in_script = [0x51], witness = []\<rparr>],
      outputs = [\<lparr>out_value = 40000, out_script = [0x51]\<rparr>]\<rparr>"

text \<open>
  The invariant that ties the counters of the mempool to its entries. For hashes of \<open>n\<close>
  characters: the map \<^verbatim>\<open>tx\<close> holds each hash once, with an entry of that hash; the values
  of the tree of times are the bytes of such hashes; \<^verbatim>\<open>total\<close> is the number of entries,
  \<^verbatim>\<open>spent\<close> the number of their inputs and \<^verbatim>\<open>size\<close> the sum of their memory usages; and a
  transaction that \<^verbatim>\<open>spents\<close> records as the spender of an output of an entry was added
  after that entry (\<open>spendersFollow\<close>: the map \<^verbatim>\<open>tx\<close> keeps the order of insertion).
\<close>

fun spendersFollow :: "(string \<rightharpoonup> Outpoint) \<Rightarrow> (hash \<times> MempoolEntry) list \<Rightarrow> bool" where
  "spendersFollow sp [] = True"
| "spendersFollow sp (x # rest) =
     ((\<forall>y\<in>set (x # rest). \<forall>i s. sp (key (fst y) i) = Some s \<longrightarrow> prev_hash s \<noteq> fst x)
      \<and> spendersFollow sp rest)"




text \<open>
  The transaction is admitted: it passes the checks of \<^verbatim>\<open>addTX\<close> up to and including the
  double-spend check, all its coins are found, and \<^verbatim>\<open>verify\<close> accepts it. These are the
  calls of \<^verbatim>\<open>addTX\<close> that go on to \<^verbatim>\<open>addUnchecked\<close> and \<^verbatim>\<open>limitMempoolSize\<close>.
\<close>

definition admitted :: "nat \<Rightarrow> Env \<Rightarrow> Mempool \<Rightarrow> TX \<Rightarrow> bool" where
  "admitted fuel env m t =
     (reachesDoubleSpendCheck env m t \<and> \<not> isDoubleSpend m t
      \<and> (case fillAllCoins env m t of
            Inl err \<Rightarrow> False
          | Inr t1 \<Rightarrow>
              hasCoins (lib env) t1
              \<and> (case entryFromTX env t1 (chain_height (chain env)) of
                    Inl e \<Rightarrow> False
                  | Inr entry \<Rightarrow>
                      (case verify fuel env entry m of
                         Returned (None, m1) \<Rightarrow> True
                       | _ \<Rightarrow> False))))"


section \<open>Properties of ChainEntry\<close>

lemma getProof_nonneg: "0 \<le> getProof fc e"
  by (simp add: getProof_def Let_def MAX_CHAINWORK_def pos_imp_zdiv_nonneg_iff)

lemma getProof_le_half: "getProof fc e \<le> 2 ^ 255"
proof (cases "fc (bits e) < 0 \<or> fc (bits e) = 0")
  case True
  then show ?thesis by (simp add: getProof_def Let_def)
next
  case False
  then have t: "2 \<le> fc (bits e) + 1" by simp
  have "(2::int) ^ 256 div (fc (bits e) + 1) \<le> 2 ^ 256 div 2"
    by (rule zdiv_mono2) (use t in simp_all)
  then show ?thesis using False
    by (simp add: getProof_def Let_def MAX_CHAINWORK_def)
qed

lemma connectEntries_sum:
  "connectEntries fc prev bs = Some tip \<Longrightarrow>
   chainwork tip = (case prev of None \<Rightarrow> 0 | Some p \<Rightarrow> chainwork p) + sum_list (map (getProof fc) bs)"
proof (induction bs arbitrary: prev)
  case Nil
  then show ?case by simp
next
  case (Cons b bs)
  from Cons.prems have "connectEntries fc (Some (fromBlock fc b prev)) bs = Some tip" by simp
  from Cons.IH [OF this] show ?case
    by (simp add: fromBlock_def getChainwork_def Let_def split: option.splits)
qed

text \<open>
  Claim C5, as the code has it. \<^verbatim>\<open>getProof\<close> is \<open>2\<^sup>2\<^sup>5\<^sup>6 div (target + 1)\<close> for a positive
  target and zero otherwise; \<^verbatim>\<open>getChainwork(prev)\<close> is the proof plus the previous entry's
  chainwork, and the proof alone without a previous entry. Nothing clamps the sum: each
  proof lies between 0 and \<open>2\<^sup>2\<^sup>5\<^sup>5\<close>, and the chainwork of the tip of a chain built from
  genesis is the plain sum of the proofs of its blocks.
\<close>

theorem chainwork_is_unclamped_sum:
  "getProof fc e = (if fc (bits e) \<le> 0 then 0 else 2 ^ 256 div (fc (bits e) + 1))
   \<and> getChainwork fc e None = getProof fc e
   \<and> getChainwork fc e (Some p) = chainwork p + getProof fc e
   \<and> 0 \<le> getProof fc e \<and> getProof fc e \<le> 2 ^ 255
   \<and> (connectEntries fc None bs = Some tip \<longrightarrow>
        chainwork tip = sum_list (map (getProof fc) bs))"
proof -
  have a: "getProof fc e = (if fc (bits e) \<le> 0 then 0 else 2 ^ 256 div (fc (bits e) + 1))"
    by (auto simp add: getProof_def Let_def MAX_CHAINWORK_def)
  have b: "getChainwork fc e None = getProof fc e"
    by (simp add: getChainwork_def)
  have c: "getChainwork fc e (Some p) = chainwork p + getProof fc e"
    by (simp add: getChainwork_def)
  have d: "connectEntries fc None bs = Some tip \<longrightarrow>
        chainwork tip = sum_list (map (getProof fc) bs)"
    using connectEntries_sum [of fc None bs tip] by simp
  show ?thesis using a b c d getProof_nonneg [of fc e] getProof_le_half [of fc e] by blast
qed

text \<open>
  Witness for C5: a regtest block (bits \<open>0x207fffff\<close>) on its own. Its target is
  \<open>0x7fffff \<sqdot> 2\<^sup>2\<^sup>3\<^sup>2\<close>, its proof and chainwork are 2.
\<close>

theorem chainwork_is_unclamped_sum_witness:
  "connectEntries fromCompact None
     [\<lparr>hash = ''01'', version = 1, prevBlock = ''00'', merkleRoot = ''aa'', ts = 1296688602,
       bits = 0x207fffff, nonce = 2, height = 1, chainwork = 0\<rparr>]
   = Some \<lparr>hash = ''01'', version = 1, prevBlock = ''00'', merkleRoot = ''aa'', ts = 1296688602,
       bits = 0x207fffff, nonce = 2, height = 1, chainwork = 2\<rparr>
   \<and> getProof fromCompact \<lparr>hash = ''01'', version = 1, prevBlock = ''00'', merkleRoot = ''aa'',
       ts = 1296688602, bits = 0x207fffff, nonce = 2, height = 1, chainwork = 0\<rparr> = 2"
proof -
  let ?b = "\<lparr>hash = ''01'', version = 1, prevBlock = ''00'', merkleRoot = ''aa'', ts = 1296688602,
       bits = 0x207fffff, nonce = 2, height = 1, chainwork = 0\<rparr>"
  have t: "fromCompact 0x207fffff = 0x7fffff * 2 ^ 232"
    by (simp add: fromCompact_def Let_def)
  have p: "getProof fromCompact ?b = 2"
    by (simp add: getProof_def Let_def MAX_CHAINWORK_def t)
  have c: "connectEntries fromCompact None [?b] = Some (?b\<lparr>chainwork := 2\<rparr>)"
    using p by (simp add: fromBlock_def getChainwork_def)
  from chainwork_is_unclamped_sum [of fromCompact ?b ?b "[?b]" "?b\<lparr>chainwork := 2\<rparr>"] c p
  show ?thesis by simp
qed

text \<open>
  Counterexample to C5 as stated (the chainwork never exceeds \<open>2\<^sup>2\<^sup>5\<^sup>6\<close>): three blocks
  with bits \<open>0x01010000\<close>, whose target is 1 and whose proof is \<open>2\<^sup>2\<^sup>5\<^sup>5\<close> each, give a tip with
  chainwork \<open>3 \<sqdot> 2\<^sup>2\<^sup>5\<^sup>5\<close>.
\<close>

theorem chainwork_exceeds_max_counterexample:
  "map_option chainwork (connectEntries fromCompact None
     [\<lparr>hash = ''01'', version = 1, prevBlock = ''00'', merkleRoot = ''aa'', ts = 1,
       bits = 0x01010000, nonce = 0, height = 1, chainwork = 0\<rparr>,
      \<lparr>hash = ''02'', version = 1, prevBlock = ''01'', merkleRoot = ''bb'', ts = 2,
       bits = 0x01010000, nonce = 0, height = 2, chainwork = 0\<rparr>,
      \<lparr>hash = ''03'', version = 1, prevBlock = ''02'', merkleRoot = ''cc'', ts = 3,
       bits = 0x01010000, nonce = 0, height = 3, chainwork = 0\<rparr>])
   = Some (3 * 2 ^ 255) \<and> MAX_CHAINWORK < 3 * 2 ^ 255"
  by (simp add: fromCompact_def Let_def fromBlock_def getChainwork_def getProof_def MAX_CHAINWORK_def)

text \<open>
  Claim C3 says that \<^verbatim>\<open>getMedianTime\<close> returns the middle element of the timestamps sorted
  in ascending numerical order. The code calls \<^verbatim>\<open>median.sort()\<close> without a comparison
  function, which orders the numbers as strings. For an entry with timestamp 10 whose
  ancestors have timestamps 9 and 5, the array \<open>[10, 9, 5]\<close> is sorted to \<open>[10, 5, 9]\<close> and
  the code returns 5; the numerical median is 9.
\<close>

theorem getMedianTime_sorts_by_string:
  "getMedianTime
     \<lparr>hash = ''03'', version = 1, prevBlock = ''02'', merkleRoot = ''cc'', ts = 10,
       bits = 0x207fffff, nonce = 0, height = 2, chainwork = 6\<rparr>
     [\<lparr>hash = ''03'', version = 1, prevBlock = ''02'', merkleRoot = ''cc'', ts = 10,
       bits = 0x207fffff, nonce = 0, height = 2, chainwork = 6\<rparr>,
      \<lparr>hash = ''02'', version = 1, prevBlock = ''01'', merkleRoot = ''bb'', ts = 9,
       bits = 0x207fffff, nonce = 0, height = 1, chainwork = 4\<rparr>,
      \<lparr>hash = ''01'', version = 1, prevBlock = ''00'', merkleRoot = ''aa'', ts = 5,
       bits = 0x207fffff, nonce = 0, height = 0, chainwork = 2\<rparr>] = 5
   \<and> specMedianTime
     \<lparr>hash = ''03'', version = 1, prevBlock = ''02'', merkleRoot = ''cc'', ts = 10,
       bits = 0x207fffff, nonce = 0, height = 2, chainwork = 6\<rparr>
     [\<lparr>hash = ''03'', version = 1, prevBlock = ''02'', merkleRoot = ''cc'', ts = 10,
       bits = 0x207fffff, nonce = 0, height = 2, chainwork = 6\<rparr>,
      \<lparr>hash = ''02'', version = 1, prevBlock = ''01'', merkleRoot = ''bb'', ts = 9,
       bits = 0x207fffff, nonce = 0, height = 1, chainwork = 4\<rparr>,
      \<lparr>hash = ''01'', version = 1, prevBlock = ''00'', merkleRoot = ''aa'', ts = 5,
       bits = 0x207fffff, nonce = 0, height = 0, chainwork = 2\<rparr>] = 9"
  by (simp add: getMedianTime_def specMedianTime_def arrayGet_def MEDIAN_TIMESPAN_def sortLess_def)

section \<open>Properties of CoinView\<close>

lemma slotAt_arraySet_same: "slotAt (c\<lparr>coins_outputs := arraySet (coins_outputs c) i None\<rparr>) i = None"
  by (simp add: slotAt_def arraySet_def nth_append)

lemma slotAt_arraySet_None:
  "slotAt c j = None \<Longrightarrow> slotAt (c\<lparr>coins_outputs := arraySet (coins_outputs c) i None\<rparr>) j = None"
  by (auto simp add: slotAt_def arraySet_def nth_append nth_list_update split: if_splits)

lemma viewSpend_not_has:
  "viewSpend view h i = Inr (c, view') \<Longrightarrow> \<not> viewHas view' h i"
  by (auto simp add: viewSpend_def viewHas_def coinsSpend_def coinsHas_def slotAt_arraySet_same
      split: option.splits sum.splits)

lemma viewSpend_keeps_not_has:
  "viewSpend view h i = Inr (c, view') \<Longrightarrow> \<not> viewHas view h' j \<Longrightarrow> \<not> viewHas view' h' j"
  by (auto simp add: viewSpend_def viewHas_def coinsSpend_def coinsHas_def
      slotAt_arraySet_same slotAt_arraySet_None
      split: option.splits sum.splits if_splits)

lemma viewSpend_absent:
  "\<not> viewHas view h i \<Longrightarrow> \<exists>view'. viewSpend view h i = Inr (None, view')"
  by (auto simp add: viewSpend_def viewHas_def coinsSpend_def coinsHas_def coinsGet_def
      split: option.splits sum.splits)

lemma fillInputs_keeps_not_has:
  "fillInputs view ins = Inr (b, ins', view') \<Longrightarrow> \<not> viewHas view h j \<Longrightarrow> \<not> viewHas view' h j"
proof (induction ins arbitrary: view b ins' view')
  case Nil
  then show ?case by simp
next
  case (Cons i rest)
  from Cons.prems(1) obtain c v1 where
    s: "viewSpend view (prev_hash (prevout i)) (prev_index (prevout i)) = Inr (c, v1)"
    by (auto split: sum.splits)
  have h1: "\<not> viewHas v1 h j"
    using viewSpend_keeps_not_has [OF s Cons.prems(2)] .
  show ?case
  proof (cases "c = None")
    case True
    with Cons.prems(1) s have "view' = v1" by simp
    with h1 show ?thesis by simp
  next
    case False
    with Cons.prems(1) s obtain b' rest' where "fillInputs v1 rest = Inr (b', rest', view')"
      by (auto split: sum.splits)
    from Cons.IH [OF this h1] show ?thesis .
  qed
qed

lemma fillInputs_length:
  "fillInputs view ins = Inr (b, ins', view') \<Longrightarrow> length ins' = length ins"
  by (induction ins arbitrary: view b ins' view') (auto split: sum.splits if_splits)

lemma fillInputs_prevout:
  "fillInputs view ins = Inr (b, ins', view') \<Longrightarrow> j < length ins \<Longrightarrow> prevout (ins' ! j) = prevout (ins ! j)"
proof (induction ins arbitrary: view b ins' view' j)
  case Nil
  then show ?case by simp
next
  case (Cons i rest)
  then show ?case
    by (cases j) (auto split: sum.splits if_splits)
qed

lemma fillInputs_true:
  "fillInputs view ins = Inr (True, ins', view') \<Longrightarrow> j < length ins \<Longrightarrow>
   coin (ins' ! j) \<noteq> None \<and> \<not> viewHas view' (prev_hash (prevout (ins ! j))) (prev_index (prevout (ins ! j)))"
proof (induction ins arbitrary: view ins' view' j)
  case Nil
  then show ?case by simp
next
  case (Cons i rest)
  from Cons.prems(1) obtain c v1 rest' where
    s: "viewSpend view (prev_hash (prevout i)) (prev_index (prevout i)) = Inr (c, v1)"
    and c: "c \<noteq> None"
    and r: "fillInputs v1 rest = Inr (True, rest', view')"
    and i': "ins' = i\<lparr>coin := c\<rparr> # rest'"
    by (auto split: sum.splits if_splits)
  show ?case
  proof (cases j)
    case 0
    from viewSpend_not_has [OF s] fillInputs_keeps_not_has [OF r]
    show ?thesis using 0 c i' by auto
  next
    case (Suc n)
    with Cons.prems(2) have "n < length rest" by simp
    from Cons.IH [OF r this] show ?thesis using Suc i' by simp
  qed
qed

lemma fillInputs_false:
  "fillInputs view ins = Inr (False, ins', view') \<Longrightarrow>
   \<exists>k<length ins. coin (ins' ! k) = None \<and>
     (\<forall>j<k. coin (ins' ! j) \<noteq> None \<and>
        \<not> viewHas view' (prev_hash (prevout (ins ! j))) (prev_index (prevout (ins ! j))))"
proof (induction ins arbitrary: view ins' view')
  case Nil
  then show ?case by simp
next
  case (Cons i rest)
  from Cons.prems obtain c v1 where
    s: "viewSpend view (prev_hash (prevout i)) (prev_index (prevout i)) = Inr (c, v1)"
    by (auto split: sum.splits)
  show ?case
  proof (cases "c = None")
    case True
    with Cons.prems s have "ins' = i\<lparr>coin := None\<rparr> # rest" by simp
    then show ?thesis by (intro exI [of _ 0]) simp
  next
    case False
    with Cons.prems s obtain rest' where
      r: "fillInputs v1 rest = Inr (False, rest', view')"
      and i': "ins' = i\<lparr>coin := c\<rparr> # rest'"
      by (auto split: sum.splits)
    from Cons.IH [OF r] obtain k where k: "k < length rest" "coin (rest' ! k) = None"
      "\<forall>j<k. coin (rest' ! j) \<noteq> None \<and>
        \<not> viewHas view' (prev_hash (prevout (rest ! j))) (prev_index (prevout (rest ! j)))"
      by blast
    have h0: "\<not> viewHas view' (prev_hash (prevout i)) (prev_index (prevout i))"
      using viewSpend_not_has [OF s] fillInputs_keeps_not_has [OF r] by blast
    have "\<forall>j<Suc k. coin (ins' ! j) \<noteq> None \<and>
        \<not> viewHas view' (prev_hash (prevout ((i # rest) ! j))) (prev_index (prevout ((i # rest) ! j)))"
    proof (intro allI impI)
      fix j assume "j < Suc k"
      then show "coin (ins' ! j) \<noteq> None \<and>
        \<not> viewHas view' (prev_hash (prevout ((i # rest) ! j))) (prev_index (prevout ((i # rest) ! j)))"
        using k(3) h0 False i' by (cases j) auto
    qed
    then show ?thesis using k(1,2) i' by (intro exI [of _ "Suc k"]) simp
  qed
qed

lemma fillInputs_again:
  assumes "fillInputs view ins = Inr (b, ins', view')" and "ins \<noteq> []"
  shows "\<exists>ins'' view''. fillInputs view' ins' = Inr (False, ins'', view'')"
proof -
  from assms obtain i rest where ins: "ins = i # rest" by (cases ins) auto
  from assms(1) ins obtain c v1 where
    s: "viewSpend view (prev_hash (prevout i)) (prev_index (prevout i)) = Inr (c, v1)"
    by (auto split: sum.splits)
  have nh1: "\<not> viewHas v1 (prev_hash (prevout i)) (prev_index (prevout i))"
    by (rule viewSpend_not_has [OF s])
  have nh: "\<not> viewHas view' (prev_hash (prevout i)) (prev_index (prevout i))"
    using assms(1) ins s nh1
    by (auto split: sum.splits if_splits dest: fillInputs_keeps_not_has)
  from fillInputs_length [OF assms(1)] ins obtain i' rest' where ins': "ins' = i' # rest'"
    by (cases ins') auto
  from fillInputs_prevout [OF assms(1), of 0] ins ins' have "prevout i' = prevout i" by simp
  with viewSpend_absent [OF nh] ins' show ?thesis by auto
qed

lemma viewSpend_returns_get:
  "viewSpend view h i = Inr (c, view') \<Longrightarrow> viewGet view h i = Inr c"
  by (auto simp add: viewSpend_def viewGet_def coinsSpend_def split: option.splits sum.splits)

lemma slotAt_arraySet_other:
  "j \<noteq> i \<Longrightarrow> slotAt (c\<lparr>coins_outputs := arraySet (coins_outputs c) i None\<rparr>) j = slotAt c j"
  by (auto simp add: slotAt_def arraySet_def nth_append nth_list_update split: if_splits)

lemma toCoin_outputs_irrelevant:
  "toCoin d (c\<lparr>coins_outputs := os\<rparr>) j = toCoin d c j"
  by (simp add: toCoin_def split: sum.splits prod.splits)

lemma coinsGet_arraySet_other:
  "j \<noteq> i \<Longrightarrow> coinsGet (c\<lparr>coins_outputs := arraySet (coins_outputs c) i None\<rparr>) j = coinsGet c j"
  by (simp add: coinsGet_def slotAt_arraySet_other toCoin_outputs_irrelevant
      split: option.splits slot.splits)

lemma viewSpend_get_other:
  "viewGet view' h' j = viewGet view h' j"
  if "viewSpend view h i = Inr (c, view')" and "(h', j) \<noteq> (h, i)"
proof (cases "view h")
  case None
  then show ?thesis using that by (simp add: viewSpend_def)
next
  case (Some cs)
  with that(1) have v': "view' = view(h \<mapsto> cs\<lparr>coins_outputs := arraySet (coins_outputs cs) i None\<rparr>)"
    by (auto simp add: viewSpend_def coinsSpend_def split: sum.splits)
  show ?thesis
  proof (cases "h' = h")
    case True
    with that(2) have "j \<noteq> i" by simp
    then show ?thesis using True Some v' by (simp add: viewGet_def coinsGet_arraySet_other)
  next
    case False
    then show ?thesis using v' by (simp add: viewGet_def)
  qed
qed

lemma fillInputs_true_coin:
  "fillInputs view ins = Inr (True, ins', view') \<Longrightarrow> j < length ins \<Longrightarrow>
   (\<forall>l<j. prevout (ins ! l) \<noteq> prevout (ins ! j)) \<Longrightarrow>
   viewGet view (prev_hash (prevout (ins ! j))) (prev_index (prevout (ins ! j))) = Inr (coin (ins' ! j))"
proof (induction ins arbitrary: view ins' view' j)
  case Nil
  then show ?case by simp
next
  case (Cons i rest)
  from Cons.prems(1) obtain c v1 rest' where
    s: "viewSpend view (prev_hash (prevout i)) (prev_index (prevout i)) = Inr (c, v1)"
    and r: "fillInputs v1 rest = Inr (True, rest', view')"
    and i': "ins' = i\<lparr>coin := c\<rparr> # rest'"
    by (auto split: sum.splits if_splits)
  show ?case
  proof (cases j)
    case 0
    then show ?thesis using viewSpend_returns_get [OF s] i' by simp
  next
    case (Suc n)
    with Cons.prems(2) have n: "n < length rest" by simp
    have d: "\<forall>l<n. prevout (rest ! l) \<noteq> prevout (rest ! n)"
      using Cons.prems(3) Suc by auto
    have ne: "prevout i \<noteq> prevout (rest ! n)"
      using Cons.prems(3) Suc by auto
    then have ne': "(prev_hash (prevout (rest ! n)), prev_index (prevout (rest ! n)))
          \<noteq> (prev_hash (prevout i), prev_index (prevout i))"
      by (auto simp add: Outpoint.equality)
    from Cons.IH [OF r n d] viewSpend_get_other [OF s ne']
    show ?thesis using Suc i' by simp
  qed
qed

text \<open>
  Claim C10. \<^verbatim>\<open>CoinView.fillCoins(tx)\<close> is destructive on the view. Whenever it returns,
  the inputs are those of the transaction with coins attached by the loop. If it returns
  true, every input has a coin attached and the view no longer has the coin of any input;
  an input whose outpoint differs from those of the inputs before it carries the coin the
  view held for it. If it returns false, there is a first input \<open>k\<close> left without a coin,
  and the inputs before it have their coins attached and removed from the view. In both
  cases a second call on the same transaction (when it has an input at all, as it must
  for the call to return false) returns false.
\<close>

theorem fillCoins_destructive:
  assumes "fillCoins view tx = Inr (b, tx', view')"
  shows "length (inputs tx') = length (inputs tx)
    \<and> (b \<longrightarrow> (\<forall>j<length (inputs tx). coin (inputs tx' ! j) \<noteq> None \<and>
          \<not> viewHas view' (prev_hash (prevout (inputs tx ! j))) (prev_index (prevout (inputs tx ! j)))))
    \<and> (b \<longrightarrow> (\<forall>j<length (inputs tx).
          (\<forall>l<j. prevout (inputs tx ! l) \<noteq> prevout (inputs tx ! j)) \<longrightarrow>
          viewGet view (prev_hash (prevout (inputs tx ! j))) (prev_index (prevout (inputs tx ! j)))
            = Inr (coin (inputs tx' ! j))))
    \<and> (\<not> b \<longrightarrow> (\<exists>k<length (inputs tx). coin (inputs tx' ! k) = None \<and>
          (\<forall>j<k. coin (inputs tx' ! j) \<noteq> None \<and>
             \<not> viewHas view' (prev_hash (prevout (inputs tx ! j))) (prev_index (prevout (inputs tx ! j))))))
    \<and> (inputs tx \<noteq> [] \<longrightarrow> (\<exists>tx'' view''. fillCoins view' tx' = Inr (False, tx'', view'')))"
proof -
  from assms obtain ins' where
    f: "fillInputs view (inputs tx) = Inr (b, ins', view')" and t: "tx' = tx\<lparr>inputs := ins'\<rparr>"
    by (auto simp add: fillCoins_def split: sum.splits)
  have 1: "length (inputs tx') = length (inputs tx)"
    using fillInputs_length [OF f] t by simp
  have 2: "b \<longrightarrow> (\<forall>j<length (inputs tx). coin (inputs tx' ! j) \<noteq> None \<and>
          \<not> viewHas view' (prev_hash (prevout (inputs tx ! j))) (prev_index (prevout (inputs tx ! j))))"
    using fillInputs_true [of view "inputs tx" ins' view'] f t by simp
  have 5: "b \<longrightarrow> (\<forall>j<length (inputs tx).
          (\<forall>l<j. prevout (inputs tx ! l) \<noteq> prevout (inputs tx ! j)) \<longrightarrow>
          viewGet view (prev_hash (prevout (inputs tx ! j))) (prev_index (prevout (inputs tx ! j)))
            = Inr (coin (inputs tx' ! j)))"
    using fillInputs_true_coin [of view "inputs tx" ins' view'] f t by simp
  have 3: "\<not> b \<longrightarrow> (\<exists>k<length (inputs tx). coin (inputs tx' ! k) = None \<and>
          (\<forall>j<k. coin (inputs tx' ! j) \<noteq> None \<and>
             \<not> viewHas view' (prev_hash (prevout (inputs tx ! j))) (prev_index (prevout (inputs tx ! j)))))"
    using fillInputs_false [of view "inputs tx" ins' view'] f t by simp
  have 4: "inputs tx \<noteq> [] \<longrightarrow> (\<exists>tx'' view''. fillCoins view' tx' = Inr (False, tx'', view''))"
  proof
    assume "inputs tx \<noteq> []"
    from fillInputs_again [OF f this] obtain ins'' view'' where
      "fillInputs view' ins' = Inr (False, ins'', view'')" by blast
    then show "\<exists>tx'' view''. fillCoins view' tx' = Inr (False, tx'', view'')"
      using t by (simp add: fillCoins_def)
  qed
  from 1 2 3 4 5 show ?thesis by blast
qed

lemmas view_eval_defs = fillCoins_def viewSpend_def coinsSpend_def coinsGet_def slotAt_def arraySet_def
  viewHas_def coinsHas_def viewGet_def

text \<open>
  Witness for C10: a view holding output 0 of transaction \<open>aa\<close>, and a transaction that
  spends outputs 0 and 1 of it. The call returns false at the second input; the coin of
  the first input is attached and gone from the view, whose array the spend of index 1
  has extended; the second call returns false.
\<close>

theorem fillCoins_destructive_witness:
  "fillCoins
     [''aa'' \<mapsto> \<lparr>coins_version = 1, coins_hash = ''aa'', coins_height = 1, coins_coinbase = True,
        coins_outputs = [Some (Plain \<lparr>coin_version = 1, coin_height = 1, coin_value = 5000,
          coin_script = [0x51], coin_coinbase = True, coin_hash = ''aa'', coin_index = 0\<rparr>)]\<rparr>]
     \<lparr>tx_hash = ''bb'', tx_version = 1, tx_height = -1, tx_ts = 0,
      inputs = [\<lparr>prevout = \<lparr>prev_hash = ''aa'', prev_index = 0\<rparr>, coin = None, in_script = [], witness = []\<rparr>,
                \<lparr>prevout = \<lparr>prev_hash = ''aa'', prev_index = 1\<rparr>, coin = None, in_script = [], witness = []\<rparr>],
      outputs = [\<lparr>out_value = 4000, out_script = [0x51]\<rparr>]\<rparr>
   = Inr (False,
      \<lparr>tx_hash = ''bb'', tx_version = 1, tx_height = -1, tx_ts = 0,
       inputs = [\<lparr>prevout = \<lparr>prev_hash = ''aa'', prev_index = 0\<rparr>,
                  coin = Some \<lparr>coin_version = 1, coin_height = 1, coin_value = 5000,
                    coin_script = [0x51], coin_coinbase = True, coin_hash = ''aa'', coin_index = 0\<rparr>,
                  in_script = [], witness = []\<rparr>,
                 \<lparr>prevout = \<lparr>prev_hash = ''aa'', prev_index = 1\<rparr>, coin = None, in_script = [], witness = []\<rparr>],
       outputs = [\<lparr>out_value = 4000, out_script = [0x51]\<rparr>]\<rparr>,
      [''aa'' \<mapsto> \<lparr>coins_version = 1, coins_hash = ''aa'', coins_height = 1, coins_coinbase = True,
        coins_outputs = [None, None]\<rparr>])
   \<and> \<not> viewHas [''aa'' \<mapsto> \<lparr>coins_version = 1, coins_hash = ''aa'', coins_height = 1,
        coins_coinbase = True, coins_outputs = [None, None]\<rparr>] ''aa'' 0
   \<and> (\<exists>tx'' view''. fillCoins
        [''aa'' \<mapsto> \<lparr>coins_version = 1, coins_hash = ''aa'', coins_height = 1, coins_coinbase = True,
          coins_outputs = [None, None]\<rparr>]
        \<lparr>tx_hash = ''bb'', tx_version = 1, tx_height = -1, tx_ts = 0,
         inputs = [\<lparr>prevout = \<lparr>prev_hash = ''aa'', prev_index = 0\<rparr>,
                  coin = Some \<lparr>coin_version = 1, coin_height = 1, coin_value = 5000,
                    coin_script = [0x51], coin_coinbase = True, coin_hash = ''aa'', coin_index = 0\<rparr>,
                  in_script = [], witness = []\<rparr>,
                 \<lparr>prevout = \<lparr>prev_hash = ''aa'', prev_index = 1\<rparr>, coin = None, in_script = [], witness = []\<rparr>],
         outputs = [\<lparr>out_value = 4000, out_script = [0x51]\<rparr>]\<rparr> = Inr (False, tx'', view''))"
  (is "fillCoins ?V ?T = Inr (False, ?T', ?V') \<and> _ \<and> _")
proof -
  have e: "fillCoins ?V ?T = Inr (False, ?T', ?V')"
    by (simp add: view_eval_defs)
  have n: "\<not> viewHas ?V' ''aa'' 0"
    by (simp add: view_eval_defs)
  from fillCoins_destructive [OF e] have "\<exists>tx'' view''. fillCoins ?V' ?T' = Inr (False, tx'', view'')"
    by simp
  with e n show ?thesis by blast
qed

section \<open>Properties of the mempool\<close>

lemma char_of_48: "char_of (48::nat) = CHR ''0''"
  by (simp add: char_of_eq_iff)

lemmas ex_defs = exConstants_def exCoin_def exChain_def exLib_def exEnv_def newMempool_def exTX_def
  exFilledTX_def exEntry_def exPool_def

lemmas mp_defs = addTX_def Let_def has_def hasOrphan_def hasTX_def isDoubleSpend_def isSpent_def key_def
  fillAllCoins_def mempoolFillCoins_def isCoinbase_def isNull_def mempoolGetCoin_def
  entryFromTX_def verify_def verifyFees_def verifyScripts_def getMinRate_def getTX_def
  addUnchecked'_def entryToRaw_def stripCoins_def memUsage_def memUsageBitcoind_def mallocUsage_def
  emit_def char_of_48 resolveOrphans_def limitMempoolSize_def mempoolGetSize_def coinFromTX_def
  NULL_HASH_def


lemma exPool_spent: "isSpent exPool ''c0'' 0 = Some \<lparr>prev_hash = ''a1'', prev_index = 0\<rparr>"
  by (simp add: isSpent_def key_def ex_defs char_of_48)

lemma exPool_reaches: "reachesDoubleSpendCheck (env\<lparr>now := n\<rparr>) exPool (exTX h 0)"
  if "env = exEnv True" and "h \<noteq> ''a1''"
  using that
  by (simp add: reachesDoubleSpendCheck_def ex_defs has_def hasOrphan_def hasTX_def
      isCoinbase_def isNull_def NULL_HASH_def)

lemma isDoubleSpendInputs_iff:
  "isDoubleSpendInputs m ins =
     (\<exists>i\<in>set ins. isSpent m (prev_hash (prevout i)) (prev_index (prevout i)) \<noteq> None)"
  by (induction ins) auto

lemma addTX_duplicate:
  assumes "reachesDoubleSpendCheck env m t" and "isDoubleSpend m t"
  shows "addTX fuel env t m
     = Returned (Some (VerifyError ''duplicate'' ''bad-txns-inputs-spent'' 0 (tx_hash t)), m)"
  using assms by (simp add: reachesDoubleSpendCheck_def addTX_def Let_def)

text \<open>
  Claim C2, as the code has it. A transaction that passes the checks of \<^verbatim>\<open>addTX\<close> that
  come before the double-spend check, and one of whose inputs spends an outpoint recorded
  in \<^verbatim>\<open>spents\<close>, is rejected with the \<^verbatim>\<open>VerifyError\<close> of type \<open>duplicate\<close> (reason
  \<open>bad-txns-inputs-spent\<close>, score 0). The mempool is returned as it was, so the earlier
  spender is still in it, and the new transaction is not: \<^verbatim>\<open>has\<close> of its hash is false.
\<close>

theorem addTX_double_spend_rejected:
  assumes "reachesDoubleSpendCheck env m t"
    and "i \<in> set (inputs t)"
    and "isSpent m (prev_hash (prevout i)) (prev_index (prevout i)) = Some spender"
  shows "addTX fuel env t m
       = Returned (Some (VerifyError ''duplicate'' ''bad-txns-inputs-spent'' 0 (tx_hash t)), m)
     \<and> \<not> has m (tx_hash t)"
proof -
  have "isDoubleSpend m t"
    using assms(2,3) by (auto simp add: isDoubleSpend_def isDoubleSpendInputs_iff)
  from addTX_duplicate [OF assms(1) this, of fuel] assms(1)
  show ?thesis by (simp add: reachesDoubleSpendCheck_def)
qed

text \<open>
  Witness for C2, the scenario of the specification: \<open>a1\<close>, which spends output 0 of
  \<open>c0\<close>, is in the pool; \<open>b2\<close> spends the same output and is rejected as a duplicate;
  afterwards the pool has \<open>a1\<close> and not \<open>b2\<close>.
\<close>

theorem addTX_double_spend_rejected_witness:
  "addTX 2 (exEnv True) (exTX ''b2'' 0) exPool
     = Returned (Some (VerifyError ''duplicate'' ''bad-txns-inputs-spent'' 0 ''b2''), exPool)
   \<and> has exPool ''a1'' \<and> \<not> has exPool ''b2''"
proof -
  have r: "reachesDoubleSpendCheck (exEnv True) exPool (exTX ''b2'' 0)"
    using exPool_reaches [of "exEnv True" "''b2''" 1000] by (simp add: exEnv_def)
  have i: "\<lparr>prevout = \<lparr>prev_hash = ''c0'', prev_index = 0\<rparr>, coin = None,
             in_script = [0x51], witness = []\<rparr> \<in> set (inputs (exTX ''b2'' 0))"
    by (simp add: exTX_def)
  have s: "isSpent exPool
      (prev_hash (prevout \<lparr>prevout = \<lparr>prev_hash = ''c0'', prev_index = 0\<rparr>, coin = None,
             in_script = [0x51], witness = []\<rparr>))
      (prev_index (prevout \<lparr>prevout = \<lparr>prev_hash = ''c0'', prev_index = 0\<rparr>, coin = None,
             in_script = [0x51], witness = []\<rparr>))
      = Some \<lparr>prev_hash = ''a1'', prev_index = 0\<rparr>"
    using exPool_spent by simp
  have a: "has exPool ''a1''"
    by (simp add: has_def hasOrphan_def hasTX_def ex_defs)
  from addTX_double_spend_rejected [OF r i s, of 2] a
  show ?thesis by (simp add: exTX_def)
qed

text \<open>
  Counterexample to C2 as stated (every transaction with an input recorded in \<^verbatim>\<open>spents\<close>
  fails as a duplicate and is not in the pool afterwards). Output 0 of \<open>c0\<close> is recorded
  as spent by \<open>a1\<close>. Submitting \<open>a1\<close> again, whose input is that outpoint, fails as
  \<open>alreadyknown\<close> (\<open>txn-already-in-mempool\<close>), and \<^verbatim>\<open>has\<close> of its hash is true; submitting
  \<open>b2\<close>, which spends the same outpoint and carries a block time, fails as \<open>alreadyknown\<close>
  (\<open>txn-already-known\<close>). Both are stopped by checks that come before the double-spend
  check.
\<close>

theorem addTX_spent_input_alreadyknown_counterexample:
  "isSpent exPool ''c0'' 0 = Some \<lparr>prev_hash = ''a1'', prev_index = 0\<rparr>
   \<and> map (\<lambda>i. (prev_hash (prevout i), prev_index (prevout i))) (inputs (exTX ''a1'' 0)) = [(''c0'', 0)]
   \<and> addTX 2 (exEnv True) (exTX ''a1'' 0) exPool
        = Returned (Some (VerifyError ''alreadyknown'' ''txn-already-in-mempool'' 0 ''a1''), exPool)
   \<and> has exPool ''a1''
   \<and> map (\<lambda>i. (prev_hash (prevout i), prev_index (prevout i))) (inputs (exTX ''b2'' 1234)) = [(''c0'', 0)]
   \<and> addTX 2 (exEnv True) (exTX ''b2'' 1234) exPool
        = Returned (Some (VerifyError ''alreadyknown'' ''txn-already-known'' 0 ''b2''), exPool)"
proof -
  have 1: "addTX 2 (exEnv True) (exTX ''a1'' 0) exPool
        = Returned (Some (VerifyError ''alreadyknown'' ''txn-already-in-mempool'' 0 ''a1''), exPool)"
    by (simp add: ex_defs mp_defs)
  have 2: "addTX 2 (exEnv True) (exTX ''b2'' 1234) exPool
        = Returned (Some (VerifyError ''alreadyknown'' ''txn-already-known'' 0 ''b2''), exPool)"
    by (simp add: ex_defs mp_defs)
  have 3: "has exPool ''a1''"
    by (simp add: has_def hasOrphan_def hasTX_def ex_defs)
  from 1 2 3 exPool_spent show ?thesis by (simp add: exTX_def)
qed

text \<open>
  Claim C6, as the code has it. The mempool replaces nothing. Whenever a transaction
  that reaches the double-spend check collides with a mempool spender on an input,
  \<^verbatim>\<open>addTX\<close> hands the \<open>duplicate\<close> error to its callback and leaves the mempool as it
  was, whatever the times of the two transactions: the transactions and the spenders are
  the same, the older spender's entry is the same, the newer transaction is not added, and
  no event is emitted, so no \<open>conflict\<close> event.
\<close>

theorem addTX_collision_keeps_older:
  assumes "reachesDoubleSpendCheck env m t"
    and "i \<in> set (inputs t)"
    and "isSpent m (prev_hash (prevout i)) (prev_index (prevout i)) = Some spender"
    and "addTX fuel env t m = Returned (r, m')"
  shows "r = Some (VerifyError ''duplicate'' ''bad-txns-inputs-spent'' 0 (tx_hash t))
     \<and> mp_tx m' = mp_tx m \<and> mp_spents m' = mp_spents m
     \<and> getEntry m' (prev_hash spender) = getEntry m (prev_hash spender)
     \<and> \<not> hasTX m' (tx_hash t)
     \<and> mp_events m' = mp_events m"
proof -
  have "isDoubleSpend m t"
    using assms(2,3) by (auto simp add: isDoubleSpend_def isDoubleSpendInputs_iff)
  from addTX_duplicate [OF assms(1) this, of fuel] assms(4)
  have "r = Some (VerifyError ''duplicate'' ''bad-txns-inputs-spent'' 0 (tx_hash t))" "m' = m"
    by simp_all
  moreover have "\<not> hasTX m (tx_hash t)"
    using assms(1) by (simp add: reachesDoubleSpendCheck_def has_def split: if_splits)
  ultimately show ?thesis by simp
qed

text \<open>
  Witness for C6: \<open>a1\<close> entered the pool at time 1000; \<open>b3\<close> arrives at time 2000 and
  spends the same output.
\<close>

theorem addTX_collision_keeps_older_witness:
  "addTX 2 ((exEnv True)\<lparr>now := 2000\<rparr>) (exTX ''b3'' 0) exPool
     = Returned (Some (VerifyError ''duplicate'' ''bad-txns-inputs-spent'' 0 ''b3''), exPool)
   \<and> map_option e_ts (getEntry exPool ''a1'') = Some 1000
   \<and> \<not> hasTX exPool ''b3''"
proof -
  let ?env = "(exEnv True)\<lparr>now := 2000\<rparr>"
  let ?i = "\<lparr>prevout = \<lparr>prev_hash = ''c0'', prev_index = 0\<rparr>, coin = None,
             in_script = [0x51], witness = []\<rparr>"
  have r: "reachesDoubleSpendCheck ?env exPool (exTX ''b3'' 0)"
    by (rule exPool_reaches) simp_all
  have i: "?i \<in> set (inputs (exTX ''b3'' 0))"
    by (simp add: exTX_def)
  have s: "isSpent exPool (prev_hash (prevout ?i)) (prev_index (prevout ?i))
      = Some \<lparr>prev_hash = ''a1'', prev_index = 0\<rparr>"
    using exPool_spent by simp
  have d: "isDoubleSpend exPool (exTX ''b3'' 0)"
    using exPool_spent by (simp add: isDoubleSpend_def exTX_def)
  have e: "addTX 2 ?env (exTX ''b3'' 0) exPool
     = Returned (Some (VerifyError ''duplicate'' ''bad-txns-inputs-spent'' 0 (tx_hash (exTX ''b3'' 0))),
         exPool)"
    by (rule addTX_duplicate [OF r d])
  have t: "map_option e_ts (getEntry exPool ''a1'') = Some 1000"
    by (simp add: getEntry_def ex_defs)
  from addTX_collision_keeps_older [OF r i s e] e t
  show ?thesis by (simp add: exTX_def)
qed

text \<open>
  Counterexample to C6 as stated (the newer transaction replaces the older one, and the
  removed spenders trigger \<open>conflict\<close> events). \<open>a1\<close> is in the pool since time 1000 and
  spends output 0 of \<open>c0\<close>; \<open>b3\<close> is submitted at time 2000 and spends the same output.
  Both are unconfirmed. \<open>b3\<close> is rejected; the pool still has \<open>a1\<close> and does not have
  \<open>b3\<close>, and its events are the two of the admission of \<open>a1\<close>.
\<close>

theorem addTX_no_replacement_counterexample:
  "addTX 2 ((exEnv True)\<lparr>now := 2000\<rparr>) (exTX ''b3'' 0) exPool
       = Returned (Some (VerifyError ''duplicate'' ''bad-txns-inputs-spent'' 0 ''b3''), exPool)
   \<and> hasTX exPool ''a1'' \<and> \<not> hasTX exPool ''b3''
   \<and> mp_events exPool = [Emit ''tx'' ''a1'', Emit ''add tx'' ''a1'']
   \<and> tx_ts (exTX ''b3'' 0) = 0
   \<and> map_option e_ts (getEntry exPool ''a1'') = Some 1000"
proof -
  have "addTX 2 ((exEnv True)\<lparr>now := 2000\<rparr>) (exTX ''b3'' 0) exPool
       = Returned (Some (VerifyError ''duplicate'' ''bad-txns-inputs-spent'' 0 ''b3''), exPool)"
    by (simp add: ex_defs mp_defs)
  moreover have "hasTX exPool ''a1''" "\<not> hasTX exPool ''b3''"
    "mp_events exPool = [Emit ''tx'' ''a1'', Emit ''add tx'' ''a1'']"
    by (simp_all add: hasTX_def ex_defs)
  moreover have "tx_ts (exTX ''b3'' 0) = 0"
    "map_option e_ts (getEntry exPool ''a1'') = Some 1000"
    by (simp_all add: getEntry_def ex_defs)
  ultimately show ?thesis by simp
qed

text \<open>
  Claim C8, as the code has it. When the scripts fail under the standard flags and again
  under the mandatory flags, the error is the \<^verbatim>\<open>VerifyError\<close> of type \<open>nonstandard\<close> with
  reason \<open>mandatory-script-verify-flag\<close> and score 0; and whenever \<^verbatim>\<open>verify\<close> hands its
  callback a \<open>nonstandard\<close> error with that reason, its score is 0.
\<close>

theorem verify_mandatory_score_zero:
  "(verifyAsync (lib env) t fl = Inr False \<longrightarrow> verifyAsync (lib env) t mand = Inr False \<longrightarrow>
      verifyScripts env t fl mand
        = Some (VerifyError ''nonstandard'' ''mandatory-script-verify-flag'' 0 (tx_hash t)))
   \<and> (verify fuel env entry m
        = Returned (Some (VerifyError ''nonstandard'' ''mandatory-script-verify-flag'' score h), m')
      \<longrightarrow> score = 0)"
proof -
  have a: "verifyAsync (lib env) t fl = Inr False \<Longrightarrow> verifyAsync (lib env) t mand = Inr False \<Longrightarrow>
      verifyScripts env t fl mand
        = Some (VerifyError ''nonstandard'' ''mandatory-script-verify-flag'' 0 (tx_hash t))"
    by (simp add: verifyScripts_def)
  have b: "verify fuel env entry m
        = Returned (Some (VerifyError ''nonstandard'' ''mandatory-script-verify-flag'' score h), m')
      \<Longrightarrow> score = 0"
    by (auto simp add: verify_def verifyFees_def verifyScripts_def Let_def
        split: sum.splits if_splits prod.splits outcome.splits option.splits)
  from a b show ?thesis by blast
qed

text \<open>
  Witness for C8: the entry of \<open>a1\<close> with its coin filled, in a world where every script
  verification fails. \<^verbatim>\<open>verify\<close> returns the mandatory-script error, with score 0.
\<close>

theorem verify_mandatory_score_zero_witness:
  "verifyAsync (lib (exEnv False)) (exFilledTX ''a1'') 0x17ff = Inr False
   \<and> verifyAsync (lib (exEnv False)) (exFilledTX ''a1'') 1 = Inr False
   \<and> verifyScripts (exEnv False) (exFilledTX ''a1'') 0x17ff 1
        = Some (VerifyError ''nonstandard'' ''mandatory-script-verify-flag'' 0 ''a1'')
   \<and> (\<exists>score. verify (Suc 0) (exEnv False) (exEntry (exFilledTX ''a1'')) (newMempool 300000000 True 1000 900)
        = Returned (Some (VerifyError ''nonstandard'' ''mandatory-script-verify-flag'' score ''a1''),
            newMempool 300000000 True 1000 900) \<and> score = 0)"
proof -
  have 1: "verifyAsync (lib (exEnv False)) (exFilledTX ''a1'') 0x17ff = Inr False"
    "verifyAsync (lib (exEnv False)) (exFilledTX ''a1'') 1 = Inr False"
    by (simp_all add: ex_defs)
  have 2: "verify (Suc 0) (exEnv False) (exEntry (exFilledTX ''a1'')) (newMempool 300000000 True 1000 900)
        = Returned (Some (VerifyError ''nonstandard'' ''mandatory-script-verify-flag'' 0 ''a1''),
            newMempool 300000000 True 1000 900)"
    by (simp add: ex_defs mp_defs)
  from verify_mandatory_score_zero [of "exEnv False" "exFilledTX ''a1''" "0x17ff" 1 "Suc 0"
      "exEntry (exFilledTX ''a1'')" "newMempool 300000000 True 1000 900" 0 "''a1''"
      "newMempool 300000000 True 1000 900"] 1 2
  show ?thesis by (simp add: exFilledTX_def)
qed

text \<open>
  Counterexample to C8 as stated (the mandatory-script failure carries a ban score of
  100): \<open>a1\<close> is submitted to a new mempool in a world where every script verification
  fails, under the standard and under the mandatory flags. \<^verbatim>\<open>addTX\<close> hands its callback the
  mandatory-script error with score 0.
\<close>

theorem addTX_mandatory_script_score_counterexample:
  "verifyAsync (lib (exEnv False)) (exFilledTX ''a1'') = (\<lambda>flags. Inr False)
   \<and> addTX (Suc (Suc 0)) (exEnv False) (exTX ''a1'' 0) (newMempool 300000000 True 1000 900)
       = Returned (Some (VerifyError ''nonstandard'' ''mandatory-script-verify-flag'' 0 ''a1''),
           newMempool 300000000 True 1000 900)"
proof -
  have "addTX (Suc (Suc 0)) (exEnv False) (exTX ''a1'' 0) (newMempool 300000000 True 1000 900)
       = Returned (Some (VerifyError ''nonstandard'' ''mandatory-script-verify-flag'' 0 ''a1''),
           newMempool 300000000 True 1000 900)"
    by (simp add: ex_defs mp_defs)
  then show ?thesis by (simp add: ex_defs)
qed

lemma feesOnly_refl: "feesOnly m m"
  by (simp add: feesOnly_def)

lemma feesOnly_if: "feesOnly m a \<Longrightarrow> feesOnly m b \<Longrightarrow> feesOnly m (if c then a else b)"
  by simp

lemma feesOnly_upd:
  "feesOnly m a \<Longrightarrow> feesOnly m (a\<lparr>mp_minFeeRate := v1\<rparr>)"
  "feesOnly m a \<Longrightarrow> feesOnly m (a\<lparr>mp_lastFeeUpdate := v2\<rparr>)"
  "feesOnly m a \<Longrightarrow> feesOnly m (a\<lparr>mp_networkMinRelay := v3\<rparr>)"
  "feesOnly m a \<Longrightarrow> feesOnly m (a\<lparr>mp_freeCount := v4\<rparr>)"
  "feesOnly m a \<Longrightarrow> feesOnly m (a\<lparr>mp_lastTime := v5\<rparr>)"
  unfolding feesOnly_def
  by (erule ssubst, simp)+

lemma getMinRate_feesOnly: "feesOnly m (snd (getMinRate env m))"
  unfolding getMinRate_def Let_def if_distrib [of snd] snd_conv
  by (intro feesOnly_if feesOnly_upd feesOnly_refl)

lemma feesOnly_trans: "feesOnly m a \<Longrightarrow> feesOnly a b \<Longrightarrow> feesOnly m b"
  unfolding feesOnly_def
  by (erule ssubst, erule ssubst, simp)

lemma verifyFees_feesOnly: "feesOnly m (snd (verifyFees env entry h m))"
proof -
  have "feesOnly (snd (getMinRate env m)) (snd (verifyFees env entry h m))"
    unfolding verifyFees_def Let_def if_distrib [of snd] snd_conv
    by (intro feesOnly_if feesOnly_upd feesOnly_refl)
  with getMinRate_feesOnly show ?thesis by (rule feesOnly_trans)
qed

lemma verify_feesOnly:
  assumes "verify fuel env entry m = Returned (r, m')"
  shows "feesOnly m m'"
proof -
  obtain f m4 where vf: "verifyFees env entry (chain_height (chain env) + 1) m = (f, m4)"
    by fastforce
  have m4: "feesOnly m m4"
    using verifyFees_feesOnly [of m env entry "chain_height (chain env) + 1"] vf by simp
  have "m' = m \<or> m' = m4"
    using assms vf
    by (simp add: verify_def Let_def
        split: sum.splits if_splits outcome.splits option.splits prod.splits)
  with m4 show ?thesis by (auto simp add: feesOnly_refl)
qed

lemma feesOnly_sel:
  "feesOnly m m' \<Longrightarrow>
   f m' = f (m\<lparr>mp_minFeeRate := mp_minFeeRate m', mp_lastFeeUpdate := mp_lastFeeUpdate m',
             mp_networkMinRelay := mp_networkMinRelay m', mp_freeCount := mp_freeCount m',
             mp_lastTime := mp_lastTime m'\<rparr>)"
  unfolding feesOnly_def by (erule arg_cong)

lemma feesOnly_fields:
  assumes "feesOnly m m'"
  shows "mp_events m' = mp_events m" "mp_tx m' = mp_tx m" "mp_size m' = mp_size m"
    "mp_total m' = mp_total m" "mp_spent m' = mp_spent m" "mp_maxSize m' = mp_maxSize m"
    "mp_accurateMemory m' = mp_accurateMemory m" "mp_spents m' = mp_spents m"
    "mp_coins m' = mp_coins m" "mp_orphans m' = mp_orphans m"
  using feesOnly_sel [OF assms, of mp_events] feesOnly_sel [OF assms, of mp_tx]
    feesOnly_sel [OF assms, of mp_size] feesOnly_sel [OF assms, of mp_total]
    feesOnly_sel [OF assms, of mp_spent] feesOnly_sel [OF assms, of mp_maxSize]
    feesOnly_sel [OF assms, of mp_accurateMemory] feesOnly_sel [OF assms, of mp_spents]
    feesOnly_sel [OF assms, of mp_coins] feesOnly_sel [OF assms, of mp_orphans]
  by simp_all

lemma precededBy_Nil: "precededBy a b []"
  by (simp add: precededBy_def)

lemma precededBy_append:
  assumes "precededBy a b xs" and "precededBy a b ys"
  shows "precededBy a b (xs @ ys)"
  unfolding precededBy_def
proof (intro allI impI)
  fix i h
  assume i: "i < length (xs @ ys)" and e: "(xs @ ys) ! i = Emit b h"
  show "0 < i \<and> (xs @ ys) ! (i - 1) = Emit a h"
  proof (cases "i < length xs")
    case True
    with e have "xs ! i = Emit b h" by (simp add: nth_append)
    with assms(1) True have "0 < i \<and> xs ! (i - 1) = Emit a h"
      unfolding precededBy_def by blast
    moreover from this True have "i - 1 < length xs" by simp
    ultimately show ?thesis by (simp add: nth_append)
  next
    case False
    with e have e': "ys ! (i - length xs) = Emit b h" by (simp add: nth_append)
    from False i have "i - length xs < length ys" by simp
    with assms(2) e' have j: "0 < i - length xs \<and> ys ! (i - length xs - 1) = Emit a h"
      unfolding precededBy_def by blast
    then have "\<not> i - 1 < length xs" by linarith
    with j show ?thesis by (simp add: nth_append)
  qed
qed

lemma precededBy_other:
  assumes "\<And>h. e \<noteq> Emit b h"
  shows "precededBy a b [e]"
  using assms by (simp add: precededBy_def)

lemma precededBy_pair: "a \<noteq> b \<Longrightarrow> precededBy a b [Emit a h, Emit b h]"
  by (auto simp add: precededBy_def less_Suc_eq)

lemma precededBy_pair_unless: "a \<noteq> b \<Longrightarrow> c \<noteq> b \<Longrightarrow> precededBy a b [Emit c h, Emit a h', Emit b h']"
  by (auto simp add: precededBy_def less_Suc_eq)

lemma addSpents_events: "addSpents t k ins m = Returned m' \<Longrightarrow> mp_events m' = mp_events m"
  by (induction t k ins m rule: addSpents.induct) (auto simp add: Let_def split: if_splits)

lemma addCoins_events: "addCoins env t k outs m = Returned m' \<Longrightarrow> mp_events m' = mp_events m"
  by (induction env t k outs m rule: addCoins.induct) (auto split: if_splits sum.splits)

lemma addUnchecked'_events: "addUnchecked' env entry m = Returned m' \<Longrightarrow> mp_events m' = mp_events m"
  by (auto simp add: addUnchecked'_def Let_def split: outcome.splits
      dest!: addSpents_events addCoins_events)

lemma resolveOrphansLoop_events:
  "resolveOrphansLoop env t hs m = (res, m') \<Longrightarrow> mp_events m' = mp_events m"
  by (induction env t hs m arbitrary: res m' rule: resolveOrphansLoop.induct)
    (auto simp add: Let_def split: option.splits if_splits prod.splits)

lemma resolveOrphans_events:
  "resolveOrphans env t m = (res, m') \<Longrightarrow> mp_events m' = mp_events m"
  by (auto simp add: resolveOrphans_def split: option.splits prod.splits
      dest: resolveOrphansLoop_events)

lemma verify_events: "verify fuel env entry m = Returned (r, m') \<Longrightarrow> mp_events m' = mp_events m"
  by (rule feesOnly_fields(1) [OF verify_feesOnly])

lemma addResolved_events:
  assumes "admits self"
  shows "addResolved fuel self env txl m = Returned m' \<Longrightarrow>
     \<exists>new. mp_events m' = mp_events m @ new \<and> precededBy ''tx'' ''add tx'' new"
proof (induction txl arbitrary: m)
  case Nil
  then show ?case by (auto intro: precededBy_Nil)
next
  case (Cons t rest)
  from Cons.prems obtain entry where en: "entryFromTX env t (chain_height (chain env)) = Inr entry"
    by (auto split: sum.splits)
  from Cons.prems en obtain r m1 where v: "verify fuel env entry m = Returned (r, m1)"
    by (auto split: outcome.splits)
  have e1: "mp_events m1 = mp_events m" by (rule verify_events [OF v])
  show ?case
  proof (cases r)
    case None
    with Cons.prems en v obtain m2 where s: "self entry m1 = Returned m2"
      and r: "addResolved fuel self env rest m2 = Returned m'"
      by (auto split: outcome.splits)
    from assms s obtain n1 where n1: "mp_events m2 = mp_events m1 @ n1" "precededBy ''tx'' ''add tx'' n1"
      unfolding admits_def by blast
    from Cons.IH [OF r] obtain n2 where n2: "mp_events m' = mp_events m2 @ n2" "precededBy ''tx'' ''add tx'' n2"
      by blast
    from n1 n2 e1 have "mp_events m' = mp_events m @ (n1 @ n2)" by simp
    moreover have "precededBy ''tx'' ''add tx'' (n1 @ n2)"
      using n1(2) n2(2) by (rule precededBy_append)
    ultimately show ?thesis by blast
  next
    case (Some f)
    show ?thesis
    proof (cases f)
      case (VerifyError c rs sc h)
      with Cons.prems en v Some have r: "addResolved fuel self env rest (emit ''bad orphan'' t m1) = Returned m'"
        by simp
      from Cons.IH [OF r] obtain n2 where n2: "mp_events m' = mp_events (emit ''bad orphan'' t m1) @ n2"
        "precededBy ''tx'' ''add tx'' n2" by blast
      have "mp_events m' = mp_events m @ ([Emit ''bad orphan'' (tx_hash t)] @ n2)"
        using n2(1) e1 by (simp add: emit_def)
      moreover have "precededBy ''tx'' ''add tx'' ([Emit ''bad orphan'' (tx_hash t)] @ n2)"
        by (rule precededBy_append [OF precededBy_other n2(2)]) simp
      ultimately show ?thesis by blast
    next
      case (Err err)
      with Cons.prems en v Some have r: "addResolved fuel self env rest
          (m1\<lparr>mp_events := mp_events m1 @ [EmitError (Err err)]\<rparr>) = Returned m'"
        by simp
      from Cons.IH [OF r] obtain n2 where n2: "mp_events m' = (mp_events m1 @ [EmitError (Err err)]) @ n2"
        "precededBy ''tx'' ''add tx'' n2" by auto
      have "mp_events m' = mp_events m @ ([EmitError (Err err)] @ n2)"
        using n2(1) e1 by simp
      moreover have "precededBy ''tx'' ''add tx'' ([EmitError (Err err)] @ n2)"
        by (rule precededBy_append [OF precededBy_other n2(2)]) simp
      ultimately show ?thesis by blast
    qed
  qed
qed

lemma addUnchecked_events:
  "addUnchecked fuel env entry m = Returned m' \<Longrightarrow>
   \<exists>new. mp_events m' = mp_events m
       @ [Emit ''tx'' (tx_hash (e_tx entry)), Emit ''add tx'' (tx_hash (e_tx entry))] @ new
     \<and> precededBy ''tx'' ''add tx'' new"
proof (induction fuel arbitrary: entry m m')
  case 0
  then show ?case by simp
next
  case (Suc fuel)
  have adm: "admits (addUnchecked fuel env)"
    unfolding admits_def
  proof (intro allI impI)
    fix entry m m'
    assume "addUnchecked fuel env entry m = Returned m'"
    from Suc.IH [OF this] obtain new where
      n: "mp_events m' = mp_events m
         @ [Emit ''tx'' (tx_hash (e_tx entry)), Emit ''add tx'' (tx_hash (e_tx entry))] @ new"
      "precededBy ''tx'' ''add tx'' new" by blast
    have "precededBy ''tx'' ''add tx''
        ([Emit ''tx'' (tx_hash (e_tx entry)), Emit ''add tx'' (tx_hash (e_tx entry))] @ new)"
      by (rule precededBy_append [OF precededBy_pair n(2)]) simp
    with n(1) show "\<exists>new. mp_events m' = mp_events m @ new \<and> precededBy ''tx'' ''add tx'' new"
      by blast
  qed
  from Suc.prems obtain m1 where a: "addUnchecked' env entry m = Returned m1"
    by (auto split: outcome.splits)
  define m3 where "m3 = emit ''add tx'' (e_tx entry) (emit ''tx'' (e_tx entry)
      (m1\<lparr>mp_spent := mp_spent m1 + int (length (inputs (e_tx entry))),
          mp_size := mp_size m1 + memUsage env m1 (e_tx entry),
          mp_total := mp_total m1 + 1\<rparr>))"
  obtain resolved m4 where ro: "resolveOrphans env (e_tx entry) m3 = (resolved, m4)"
    by fastforce
  from Suc.prems a ro have r: "addResolved fuel (addUnchecked fuel env) env resolved m4 = Returned m'"
    by (simp add: Let_def m3_def)
  have e3: "mp_events m3 = mp_events m
      @ [Emit ''tx'' (tx_hash (e_tx entry)), Emit ''add tx'' (tx_hash (e_tx entry))]"
    using addUnchecked'_events [OF a] by (simp add: m3_def emit_def)
  have e4: "mp_events m4 = mp_events m3" by (rule resolveOrphans_events [OF ro])
  from addResolved_events [OF adm r] obtain new where
    "mp_events m' = mp_events m4 @ new" "precededBy ''tx'' ''add tx'' new" by blast
  with e3 e4 show ?case by auto
qed

lemma fillHistory_hash: "fillHistory m t = Inr t' \<Longrightarrow> tx_hash t' = tx_hash t"
  by (auto simp add: fillHistory_def split: if_splits sum.splits)

lemma dbFillCoins_hash: "dbFillCoins env t = Inr t' \<Longrightarrow> tx_hash t' = tx_hash t"
  by (auto simp add: dbFillCoins_def split: if_splits sum.splits)

lemma fillAllHistory_hash: "fillAllHistory env m t = Returned (Inr t') \<Longrightarrow> tx_hash t' = tx_hash t"
  by (auto simp add: fillAllHistory_def split: if_splits sum.splits
      dest!: fillHistory_hash dbFillCoins_hash)

lemma removeSpents_events: "removeSpents t limit ins m = Returned m' \<Longrightarrow> mp_events m' = mp_events m"
  by (induction t limit ins m rule: removeSpents.induct)
    (auto simp add: Let_def split: if_splits option.splits)

lemma removeCoins_events: "mp_events (removeCoins env t k outs m) = mp_events m"
  by (induction env t k outs m rule: removeCoins.induct) auto

lemma removeUnchecked'_False_events:
  "removeUnchecked' self env entry False m = Returned (r, m') \<Longrightarrow>
   r = None \<and> mp_events m' = mp_events m"
  by (auto simp add: removeUnchecked'_def removeSpenders_def Let_def removeCoins_events
      split: outcome.splits dest!: removeSpents_events)

lemma removeOrphanTX_events:
  "mp_events (removeOrphanTX env t m) = mp_events m @ [Emit ''remove orphan'' (tx_hash t)]"
  by (simp add: removeOrphanTX_def Let_def emit_def)

lemma removeUnchecked_False_events:
  assumes "removeUnchecked fuel env False entry m = Returned (r, m')"
  shows "(r = None \<and> mp_events m' = mp_events m
            @ [Emit ''remove orphan'' (tx_hash (e_tx entry)), Emit ''remove tx'' (tx_hash (e_tx entry))])
         \<or> (r \<noteq> None \<and> m' = m)"
proof (cases fuel)
  case 0
  with assms show ?thesis by simp
next
  case (Suc n)
  from assms Suc obtain res where f: "fillAllHistory env m (e_tx entry) = Returned res"
    by (auto split: outcome.splits)
  show ?thesis
  proof (cases res)
    case (Inl err)
    with assms Suc f show ?thesis by auto
  next
    case (Inr t)
    have h: "tx_hash t = tx_hash (e_tx entry)"
      using fillAllHistory_hash f Inr by blast
    from assms Suc f Inr obtain r2 m2 where
      u: "removeUnchecked' (removeUnchecked n env False) env (entry\<lparr>e_tx := t\<rparr>) False
            (removeOrphanTX env t m) = Returned (r2, m2)"
      by (auto simp add: Let_def split: outcome.splits)
    from removeUnchecked'_False_events [OF u] have r2: "r2 = None"
      and e2: "mp_events m2 = mp_events (removeOrphanTX env t m)" by simp_all
    from assms Suc f Inr u r2 have "r = None"
      and "mp_events m' = mp_events m2 @ [Emit ''remove tx'' (tx_hash t)]"
      by (auto simp add: Let_def emit_def)
    with e2 h show ?thesis by (simp add: removeOrphanTX_events)
  qed
qed

lemma removeSpents_tx: "removeSpents t limit ins m = Returned m' \<Longrightarrow> mp_tx m' = mp_tx m"
  by (induction t limit ins m rule: removeSpents.induct)
    (auto simp add: Let_def split: if_splits option.splits)

lemma removeCoins_tx: "mp_tx (removeCoins env t k outs m) = mp_tx m"
  by (induction env t k outs m rule: removeCoins.induct) auto

lemma removeOrphanTX_tx: "mp_tx (removeOrphanTX env t m) = mp_tx m"
  by (simp add: removeOrphanTX_def Let_def emit_def)

lemma removeOrphanHash_tx: "mp_tx (removeOrphanHash env h m) = mp_tx m"
  by (simp add: removeOrphanHash_def removeOrphanTX_tx split: option.splits)

lemma removeSpendersLoop_tx:
  assumes "shrinks self"
  shows "removeSpendersLoop self h k outs m = Returned (r, m') \<Longrightarrow> set (mp_tx m') \<subseteq> set (mp_tx m)"
proof (induction outs arbitrary: k m)
  case Nil
  then show ?case by simp
next
  case (Cons out rest)
  show ?case
  proof (cases "isSpent m h k")
    case None
    with Cons show ?thesis by simp
  next
    case (Some spender)
    show ?thesis
    proof (cases "getEntry m (prev_hash spender)")
      case None
      with Cons Some show ?thesis by simp
    next
      case (Some entry)
      with Cons.prems \<open>isSpent m h k = Some spender\<close> obtain r1 m1 where
        s: "self entry m = Returned (r1, m1)"
        by (auto split: outcome.splits)
      from assms s have s1: "set (mp_tx m1) \<subseteq> set (mp_tx m)"
        unfolding shrinks_def by blast
      show ?thesis
      proof (cases r1)
        case None
        with Cons.prems \<open>isSpent m h k = Some spender\<close> Some s have
          "removeSpendersLoop self h (k + 1) rest m1 = Returned (r, m')" by simp
        from Cons.IH [OF this] s1 show ?thesis by blast
      next
        case (Some err)
        with Cons.prems \<open>isSpent m h k = Some spender\<close> \<open>getEntry m (prev_hash spender) = Some entry\<close> s
        have "m' = m1" by simp
        with s1 show ?thesis by simp
      qed
    qed
  qed
qed

lemma set_delete_subset: "set (AList.delete k xs) \<subseteq> set xs"
  by (auto simp add: AList.delete_eq)

lemma key_not_in_delete: "k \<notin> fst ` set (AList.delete k xs)"
  by (auto simp add: AList.delete_eq)

lemma removeUnchecked'_tx:
  assumes "shrinks self" and "removeUnchecked' self env entry limit m = Returned (r, m')"
  shows "set (mp_tx m') \<subseteq> set (mp_tx m)
     \<and> (r = None \<longrightarrow> tx_hash (e_tx entry) \<notin> fst ` set (mp_tx m'))"
proof -
  from assms(2) obtain r1 m1 where s: "removeSpenders self entry limit m = Returned (r1, m1)"
    by (auto simp add: removeUnchecked'_def split: outcome.splits)
  have s1: "set (mp_tx m1) \<subseteq> set (mp_tx m)"
    using s removeSpendersLoop_tx [OF assms(1)]
    by (auto simp add: removeSpenders_def split: if_splits)
  show ?thesis
  proof (cases r1)
    case (Some err)
    with assms(2) s have "m' = m1" "r = Some err" by (simp_all add: removeUnchecked'_def)
    with s1 show ?thesis by simp
  next
    case None
    define m2 where "m2 = m1\<lparr>mp_tx := AList.delete (tx_hash (e_tx entry)) (mp_tx m1),
                      mp_time := rbtRemove (cmp env) (e_ts entry) (mp_time m1)\<rparr>"
    from assms(2) s None obtain m3 where
      rs: "removeSpents (e_tx entry) limit (inputs (e_tx entry)) m2 = Returned m3"
      and m': "m' = removeCoins env (e_tx entry) 0 (outputs (e_tx entry)) m3"
      by (auto simp add: removeUnchecked'_def Let_def m2_def split: outcome.splits)
    have "mp_tx m' = AList.delete (tx_hash (e_tx entry)) (mp_tx m1)"
      using removeSpents_tx [OF rs] m' by (simp add: removeCoins_tx m2_def)
    with s1 show ?thesis
      using set_delete_subset [of "tx_hash (e_tx entry)" "mp_tx m1"]
        key_not_in_delete [of "tx_hash (e_tx entry)" "mp_tx m1"] by auto
  qed
qed

lemma removeUnchecked_tx:
  "removeUnchecked fuel env limit entry m = Returned (r, m') \<Longrightarrow>
   set (mp_tx m') \<subseteq> set (mp_tx m)
     \<and> (r = None \<longrightarrow> tx_hash (e_tx entry) \<notin> fst ` set (mp_tx m'))"
proof (induction fuel arbitrary: entry m r m')
  case 0
  then show ?case by simp
next
  case (Suc n)
  have sh: "shrinks (removeUnchecked n env limit)"
    unfolding shrinks_def using Suc.IH by blast
  from Suc.prems obtain res where f: "fillAllHistory env m (e_tx entry) = Returned res"
    by (auto split: outcome.splits)
  show ?case
  proof (cases res)
    case (Inl err)
    with Suc.prems f show ?thesis by auto
  next
    case (Inr t)
    have h: "tx_hash t = tx_hash (e_tx entry)"
      using fillAllHistory_hash f Inr by blast
    from Suc.prems f Inr obtain r2 m2 where
      u: "removeUnchecked' (removeUnchecked n env limit) env (entry\<lparr>e_tx := t\<rparr>) limit
            (removeOrphanTX env t m) = Returned (r2, m2)"
      by (auto simp add: Let_def split: outcome.splits)
    from removeUnchecked'_tx [OF sh u] have
      a: "set (mp_tx m2) \<subseteq> set (mp_tx m)"
      and b: "r2 = None \<longrightarrow> tx_hash t \<notin> fst ` set (mp_tx m2)"
      by (simp_all add: removeOrphanTX_tx)
    show ?thesis
    proof (cases r2)
      case None
      with Suc.prems f Inr u have "r = None" and "mp_tx m' = mp_tx m2"
        by (auto simp add: Let_def emit_def)
      with a b None h show ?thesis by simp
    next
      case (Some err)
      with Suc.prems f Inr u have "m' = m2" by (auto simp add: Let_def)
      with a Some Suc.prems f Inr u show ?thesis by (auto simp add: Let_def)
    qed
  qed
qed

lemma keysMatch_subset: "keysMatch m \<Longrightarrow> set (mp_tx m') \<subseteq> set (mp_tx m) \<Longrightarrow> keysMatch m'"
  by (auto simp add: keysMatch_def)

lemma keysMatch_getEntry: "keysMatch m \<Longrightarrow> getEntry m h = Some entry \<Longrightarrow> tx_hash (e_tx entry) = h"
  by (auto simp add: keysMatch_def getEntry_def dest!: map_of_SomeD)

lemma removeOrphanHash_events:
  "mp_events (removeOrphanHash env h m) = mp_events m
   \<or> (\<exists>h'. mp_events (removeOrphanHash env h m) = mp_events m @ [Emit ''remove orphan'' h'])"
  by (auto simp add: removeOrphanHash_def removeOrphanTX_events split: option.splits)

lemma precededBy_removal:
  "precededBy ''remove tx'' ''confirmed''
     [Emit ''remove orphan'' h, Emit ''remove tx'' h, Emit ''confirmed'' h]"
  by (auto simp add: precededBy_def less_Suc_eq)

lemma addBlockLoop_events:
  "addBlockLoop fuel env txl m = Returned (r, m') \<Longrightarrow> keysMatch m \<Longrightarrow>
   \<exists>new. mp_events m' = mp_events m @ new \<and> precededBy ''remove tx'' ''confirmed'' new"
proof (induction txl arbitrary: m)
  case Nil
  then show ?case by (auto intro: precededBy_Nil)
next
  case (Cons t rest)
  show ?case
  proof (cases "isCoinbase t")
    case True
    with Cons show ?thesis by simp
  next
    case False
    show ?thesis
    proof (cases "getEntry m (tx_hash t)")
      case None
      with Cons.prems False have
        r: "addBlockLoop fuel env rest (removeOrphanHash env (Some (tx_hash t)) m) = Returned (r, m')"
        by simp
      have "keysMatch (removeOrphanHash env (Some (tx_hash t)) m)"
        using Cons.prems(2) by (simp add: keysMatch_def removeOrphanHash_tx)
      from Cons.IH [OF r this] obtain n2 where
        n2: "mp_events m' = mp_events (removeOrphanHash env (Some (tx_hash t)) m) @ n2"
        "precededBy ''remove tx'' ''confirmed'' n2" by blast
      from removeOrphanHash_events [of env "Some (tx_hash t)" m]
      have "\<exists>n1. mp_events (removeOrphanHash env (Some (tx_hash t)) m) = mp_events m @ n1
          \<and> precededBy ''remove tx'' ''confirmed'' n1"
      proof
        assume "mp_events (removeOrphanHash env (Some (tx_hash t)) m) = mp_events m"
        then show ?thesis by (intro exI [of _ "[]"]) (simp add: precededBy_Nil)
      next
        assume "\<exists>h'. mp_events (removeOrphanHash env (Some (tx_hash t)) m)
            = mp_events m @ [Emit ''remove orphan'' h']"
        then obtain h' where "mp_events (removeOrphanHash env (Some (tx_hash t)) m)
            = mp_events m @ [Emit ''remove orphan'' h']" by blast
        moreover have "precededBy ''remove tx'' ''confirmed'' [Emit ''remove orphan'' h']"
          by (rule precededBy_other) simp
        ultimately show ?thesis by blast
      qed
      then obtain n1 where n1: "mp_events (removeOrphanHash env (Some (tx_hash t)) m) = mp_events m @ n1"
        "precededBy ''remove tx'' ''confirmed'' n1" by blast
      from n1 n2 have "mp_events m' = mp_events m @ (n1 @ n2)" by simp
      moreover have "precededBy ''remove tx'' ''confirmed'' (n1 @ n2)"
        using n1(2) n2(2) by (rule precededBy_append)
      ultimately show ?thesis by blast
    next
      case (Some entry)
      from Cons.prems False Some obtain r1 m1 where
        u: "removeUnchecked fuel env False entry m = Returned (r1, m1)"
        by (auto split: outcome.splits)
      from removeUnchecked_False_events [OF u] show ?thesis
      proof
        assume a: "r1 = None \<and> mp_events m1 = mp_events m
            @ [Emit ''remove orphan'' (tx_hash (e_tx entry)), Emit ''remove tx'' (tx_hash (e_tx entry))]"
        with Cons.prems False Some u have
          r: "addBlockLoop fuel env rest (emit ''confirmed'' t m1) = Returned (r, m')" by simp
        have "keysMatch m1"
          using removeUnchecked_tx [OF u] Cons.prems(2) keysMatch_subset by blast
        then have k1: "keysMatch (emit ''confirmed'' t m1)"
          by (simp add: keysMatch_def emit_def)
        have eh: "tx_hash (e_tx entry) = tx_hash t"
          using keysMatch_getEntry [OF Cons.prems(2) Some] .
        from Cons.IH [OF r k1] obtain n2 where
          n2: "mp_events m' = mp_events (emit ''confirmed'' t m1) @ n2"
          "precededBy ''remove tx'' ''confirmed'' n2" by blast
        have "mp_events m' = mp_events m
            @ ([Emit ''remove orphan'' (tx_hash (e_tx entry)), Emit ''remove tx'' (tx_hash (e_tx entry)),
                Emit ''confirmed'' (tx_hash t)] @ n2)"
          using n2(1) a by (simp add: emit_def)
        moreover have "precededBy ''remove tx'' ''confirmed''
            ([Emit ''remove orphan'' (tx_hash (e_tx entry)), Emit ''remove tx'' (tx_hash (e_tx entry)),
                Emit ''confirmed'' (tx_hash t)] @ n2)"
          unfolding eh by (rule precededBy_append [OF precededBy_removal n2(2)])
        ultimately show ?thesis by blast
      next
        assume "r1 \<noteq> None \<and> m1 = m"
        with Cons.prems False Some u have "m' = m" by auto
        then show ?thesis by (auto intro: precededBy_Nil)
      qed
    qed
  qed
qed

lemma exPool_keysMatch: "keysMatch exPool"
  by (simp add: keysMatch_def ex_defs)

lemmas rm_defs = addBlock_def fillAllHistory_def fillHistory_def dbFillCoins_def removeOrphanTX_def
  removeUnchecked'_def removeSpenders_def getEntry_def

lemma followedBy_here: "followedBy a b h (pre @ [Emit a h, Emit b h] @ post)"
  unfolding followedBy_def
  by (rule exI [of _ "length pre"]) (simp add: nth_append)

lemma followedBy_split:
  assumes "followedBy a b h evs"
  shows "\<exists>pre post. evs = pre @ [Emit a h, Emit b h] @ post"
proof -
  from assms obtain i where i: "i < length evs - 1" "evs ! i = Emit a h" "evs ! (i + 1) = Emit b h"
    unfolding followedBy_def by blast
  then have "evs = take i evs @ [evs ! i, evs ! (i + 1)] @ drop (i + 2) evs"
    by (metis Cons_nth_drop_Suc Suc_eq_plus1 Suc_lessD add_2_eq_Suc' append_Cons append_Nil
        append_take_drop_id less_diff_conv)
  with i show ?thesis by metis
qed

lemma followedBy_append: "followedBy a b h evs \<Longrightarrow> followedBy a b h (xs @ evs @ ys)"
proof -
  assume "followedBy a b h evs"
  from followedBy_split [OF this] obtain pre post where "evs = pre @ [Emit a h, Emit b h] @ post"
    by blast
  then have "xs @ evs @ ys = (xs @ pre) @ [Emit a h, Emit b h] @ (post @ ys)" by simp
  then show ?thesis by (metis followedBy_here)
qed

lemma removeUnchecked_False_tx:
  assumes "removeUnchecked fuel env False entry m = Returned (None, m')"
  shows "mp_tx m' = AList.delete (tx_hash (e_tx entry)) (mp_tx m)"
proof (cases fuel)
  case 0
  with assms show ?thesis by simp
next
  case (Suc n)
  from assms Suc obtain res where f: "fillAllHistory env m (e_tx entry) = Returned res"
    by (auto split: outcome.splits)
  show ?thesis
  proof (cases res)
    case (Inl err)
    with assms Suc f show ?thesis by auto
  next
    case (Inr t)
    have h: "tx_hash t = tx_hash (e_tx entry)"
      using fillAllHistory_hash f Inr by blast
    from assms Suc f Inr obtain m2 where
      u: "removeUnchecked' (removeUnchecked n env False) env (entry\<lparr>e_tx := t\<rparr>) False
            (removeOrphanTX env t m) = Returned (None, m2)"
      and e: "mp_tx m' = mp_tx m2"
      by (auto simp add: Let_def emit_def split: outcome.splits option.splits)
    from u obtain m3 where
      s: "removeSpents t False (inputs t)
            ((removeOrphanTX env t m)\<lparr>mp_tx := AList.delete (tx_hash t) (mp_tx (removeOrphanTX env t m)),
               mp_time := rbtRemove (cmp env) (e_ts entry) (mp_time (removeOrphanTX env t m))\<rparr>)
          = Returned m3"
      and m2: "m2 = removeCoins env t 0 (outputs t) m3"
      by (auto simp add: removeUnchecked'_def removeSpenders_def Let_def split: outcome.splits)
    from removeSpents_tx [OF s] m2 e h show ?thesis
      by (simp add: removeCoins_tx removeOrphanTX_tx)
  qed
qed

lemma hasTX_delete: "h \<noteq> k \<Longrightarrow> mp_tx m' = AList.delete k (mp_tx m) \<Longrightarrow> hasTX m' h = hasTX m h"
  by (simp add: hasTX_def delete_conv)

lemma addBlockLoop_confirms:
  "addBlockLoop fuel env txl m = Returned (None, m') \<Longrightarrow> keysMatch m \<Longrightarrow>
   t \<in> set txl \<Longrightarrow> \<not> isCoinbase t \<Longrightarrow> hasTX m (tx_hash t) \<Longrightarrow>
   \<exists>new. mp_events m' = mp_events m @ new
     \<and> followedBy ''remove tx'' ''confirmed'' (tx_hash t) new"
proof (induction txl arbitrary: m)
  case Nil
  then show ?case by simp
next
  case (Cons t0 rest)
  show ?case
  proof (cases "isCoinbase t0")
    case True
    with Cons.prems have "addBlockLoop fuel env rest m = Returned (None, m')" and "t \<in> set rest"
      by auto
    from Cons.IH [OF this(1) Cons.prems(2) this(2) Cons.prems(4,5)] show ?thesis .
  next
    case False
    show ?thesis
    proof (cases "getEntry m (tx_hash t0)")
      case None
      with Cons.prems False have
        r: "addBlockLoop fuel env rest (removeOrphanHash env (Some (tx_hash t0)) m) = Returned (None, m')"
        by simp
      let ?m1 = "removeOrphanHash env (Some (tx_hash t0)) m"
      have k1: "keysMatch ?m1"
        using Cons.prems(2) by (simp add: keysMatch_def removeOrphanHash_tx)
      from None Cons.prems(5) have "tx_hash t \<noteq> tx_hash t0"
        by (auto simp add: hasTX_def getEntry_def)
      with Cons.prems(3) have tr: "t \<in> set rest" by auto
      have h1: "hasTX ?m1 (tx_hash t)"
        using Cons.prems(5) by (simp add: hasTX_def removeOrphanHash_tx)
      from Cons.IH [OF r k1 tr Cons.prems(4) h1] obtain n2 where
        n2: "mp_events m' = mp_events ?m1 @ n2"
        "followedBy ''remove tx'' ''confirmed'' (tx_hash t) n2" by blast
      from removeOrphanHash_events [of env "Some (tx_hash t0)" m]
      obtain n1 where n1: "mp_events ?m1 = mp_events m @ n1" by auto
      from n1 n2 have "mp_events m' = mp_events m @ (n1 @ n2 @ [])" by simp
      moreover have "followedBy ''remove tx'' ''confirmed'' (tx_hash t) (n1 @ n2 @ [])"
        using n2(2) by (rule followedBy_append)
      ultimately show ?thesis by blast
    next
      case (Some entry)
      with Cons.prems False obtain r1 m1 where
        u: "removeUnchecked fuel env False entry m = Returned (r1, m1)"
        by (auto split: outcome.splits)
      with Cons.prems False Some have r1: "r1 = None"
        by (cases r1) auto
      with Cons.prems False Some u have
        r: "addBlockLoop fuel env rest (emit ''confirmed'' t0 m1) = Returned (None, m')"
        by simp
      have eh: "tx_hash (e_tx entry) = tx_hash t0"
        using Cons.prems(2) Some by (rule keysMatch_getEntry)
      from removeUnchecked_False_tx [OF u [unfolded r1]] eh
      have tx1: "mp_tx (emit ''confirmed'' t0 m1) = AList.delete (tx_hash t0) (mp_tx m)"
        by (simp add: emit_def)
      have k1: "keysMatch (emit ''confirmed'' t0 m1)"
        using Cons.prems(2) tx1 set_delete_subset [of "tx_hash t0" "mp_tx m"]
        by (auto simp add: keysMatch_def)
      from removeUnchecked_False_events [OF u] r1 eh
      have e1: "mp_events (emit ''confirmed'' t0 m1) = mp_events m
          @ [Emit ''remove orphan'' (tx_hash t0)]
          @ [Emit ''remove tx'' (tx_hash t0), Emit ''confirmed'' (tx_hash t0)] @ []"
        by (auto simp add: emit_def)
      from addBlockLoop_events [OF r k1] obtain n2 where
        n2: "mp_events m' = mp_events (emit ''confirmed'' t0 m1) @ n2" by blast
      show ?thesis
      proof (cases "tx_hash t = tx_hash t0")
        case True
        from n2 e1 have "mp_events m' = mp_events m
            @ ([Emit ''remove orphan'' (tx_hash t0)]
               @ [Emit ''remove tx'' (tx_hash t), Emit ''confirmed'' (tx_hash t)] @ n2)"
          using True by simp
        moreover have "followedBy ''remove tx'' ''confirmed'' (tx_hash t)
            ([Emit ''remove orphan'' (tx_hash t0)]
               @ [Emit ''remove tx'' (tx_hash t), Emit ''confirmed'' (tx_hash t)] @ n2)"
          by (rule followedBy_here)
        ultimately show ?thesis by blast
      next
        case ne: False
        with Cons.prems(3) have tr: "t \<in> set rest" by auto
        have h1: "hasTX (emit ''confirmed'' t0 m1) (tx_hash t)"
          using hasTX_delete [OF ne tx1] Cons.prems(5) by simp
        from Cons.IH [OF r k1 tr Cons.prems(4) h1] obtain n3 where
          n3: "mp_events m' = mp_events (emit ''confirmed'' t0 m1) @ n3"
          "followedBy ''remove tx'' ''confirmed'' (tx_hash t) n3" by blast
        from n3(1) e1 have "mp_events m' = mp_events m
            @ ([Emit ''remove orphan'' (tx_hash t0), Emit ''remove tx'' (tx_hash t0),
                Emit ''confirmed'' (tx_hash t0)] @ n3 @ [])" by simp
        moreover have "followedBy ''remove tx'' ''confirmed'' (tx_hash t)
            ([Emit ''remove orphan'' (tx_hash t0), Emit ''remove tx'' (tx_hash t0),
                Emit ''confirmed'' (tx_hash t0)] @ n3 @ [])"
          using n3(2) by (rule followedBy_append)
        ultimately show ?thesis by blast
      qed
    qed
  qed
qed

text \<open>
  Claim C9, as the code has it. Whenever \<^verbatim>\<open>addUnchecked\<close> returns, it has emitted \<open>tx\<close>
  and then \<open>add tx\<close> for the transaction of its entry, and in the events that follow
  (those of the orphans it resolved) every \<open>add tx\<close> comes right after the \<open>tx\<close> of the
  same transaction. Whenever \<^verbatim>\<open>addBlock\<close> returns, on a mempool keyed by the hashes of
  its transactions, every \<open>confirmed\<close> it has emitted comes right after the \<open>remove tx\<close>
  of the same transaction: \<^verbatim>\<open>removeUnchecked\<close> emits \<open>remove tx\<close> before it calls the
  callback that emits \<open>confirmed\<close>. And when \<^verbatim>\<open>addBlock\<close> returns without an error, every
  transaction of the block that is not a coinbase and that the mempool held has got both
  events: its \<open>remove tx\<close>, immediately followed by its \<open>confirmed\<close>.
\<close>

theorem events_order:
  "(addUnchecked fuel env entry m = Returned m' \<longrightarrow>
      (\<exists>new. mp_events m' = mp_events m
          @ [Emit ''tx'' (tx_hash (e_tx entry)), Emit ''add tx'' (tx_hash (e_tx entry))] @ new
        \<and> precededBy ''tx'' ''add tx'' new))
   \<and> (keysMatch m \<longrightarrow> addBlock fuel env block m = Returned (r, m'') \<longrightarrow>
      (\<exists>new. mp_events m'' = mp_events m @ new \<and> precededBy ''remove tx'' ''confirmed'' new
        \<and> (r = None \<longrightarrow>
            (\<forall>t\<in>set (txs block). \<not> isCoinbase t \<longrightarrow> hasTX m (tx_hash t) \<longrightarrow>
               followedBy ''remove tx'' ''confirmed'' (tx_hash t) new))))"
proof (intro conjI impI)
  assume "addUnchecked fuel env entry m = Returned m'"
  then show "\<exists>new. mp_events m' = mp_events m
          @ [Emit ''tx'' (tx_hash (e_tx entry)), Emit ''add tx'' (tx_hash (e_tx entry))] @ new
        \<and> precededBy ''tx'' ''add tx'' new"
    by (rule addUnchecked_events)
next
  assume k: "keysMatch m" and a: "addBlock fuel env block m = Returned (r, m'')"
  from a obtain r1 m1 where l: "addBlockLoop fuel env (rev (txs block)) m = Returned (r1, m1)"
    and e: "mp_events m'' = mp_events m1" and r1: "r1 = r"
    by (auto simp add: addBlock_def split: outcome.splits option.splits)
  from addBlockLoop_events [OF l k] e obtain new where
    n: "mp_events m'' = mp_events m @ new" and p: "precededBy ''remove tx'' ''confirmed'' new"
    by auto
  have "\<forall>t\<in>set (txs block). \<not> isCoinbase t \<longrightarrow> hasTX m (tx_hash t) \<longrightarrow>
      followedBy ''remove tx'' ''confirmed'' (tx_hash t) new" if "r = None"
  proof (intro ballI impI)
    fix t
    assume t: "t \<in> set (txs block)" "\<not> isCoinbase t" "hasTX m (tx_hash t)"
    from l r1 that have l': "addBlockLoop fuel env (rev (txs block)) m = Returned (None, m1)"
      by simp
    from t(1) have "t \<in> set (rev (txs block))" by simp
    from addBlockLoop_confirms [OF l' k this t(2,3)] e n
    show "followedBy ''remove tx'' ''confirmed'' (tx_hash t) new" by auto
  qed
  with n p
  show "\<exists>new. mp_events m'' = mp_events m @ new \<and> precededBy ''remove tx'' ''confirmed'' new
        \<and> (r = None \<longrightarrow>
            (\<forall>t\<in>set (txs block). \<not> isCoinbase t \<longrightarrow> hasTX m (tx_hash t) \<longrightarrow>
               followedBy ''remove tx'' ''confirmed'' (tx_hash t) new))"
    by blast
qed

lemma ex_addUnchecked:
  "addUnchecked (Suc 0) (exEnv True) (exEntry (exFilledTX ''a1'')) (newMempool 300000000 True 1000 900)
    = Returned exPool"
  by (simp add: ex_defs mp_defs)

lemma ex_addBlock:
  "returnedEvents (addBlock (Suc 0) (exEnv True) exBlock exPool)
    = Some [Emit ''tx'' ''a1'', Emit ''add tx'' ''a1'', Emit ''remove orphan'' ''a1'',
            Emit ''remove tx'' ''a1'', Emit ''confirmed'' ''a1'']"
  by (simp add: returnedEvents_def exBlock_def ex_defs mp_defs rm_defs)

lemma ex_addBlock_result:
  "(case addBlock (Suc 0) (exEnv True) exBlock exPool of Returned (r, m) \<Rightarrow> r | _ \<Rightarrow> Some '''') = None"
  by (simp add: exBlock_def ex_defs mp_defs rm_defs)

text \<open>
  Witness for C9: the admission of \<open>a1\<close> to a new mempool emits \<open>tx\<close>, then \<open>add tx\<close>;
  the block that confirms \<open>a1\<close>, which the mempool holds, then emits \<open>remove orphan\<close>,
  \<open>remove tx\<close> and \<open>confirmed\<close>, in this order, and returns no error.
\<close>

theorem events_order_witness:
  "addUnchecked (Suc 0) (exEnv True) (exEntry (exFilledTX ''a1'')) (newMempool 300000000 True 1000 900)
     = Returned exPool
   \<and> mp_events exPool = [] @ [Emit ''tx'' ''a1'', Emit ''add tx'' ''a1''] @ []
   \<and> precededBy ''tx'' ''add tx'' []
   \<and> keysMatch exPool
   \<and> returnedEvents (addBlock (Suc 0) (exEnv True) exBlock exPool)
       = Some (mp_events exPool @ [Emit ''remove orphan'' ''a1'', Emit ''remove tx'' ''a1'',
            Emit ''confirmed'' ''a1''])
   \<and> precededBy ''remove tx'' ''confirmed''
        [Emit ''remove orphan'' ''a1'', Emit ''remove tx'' ''a1'', Emit ''confirmed'' ''a1'']
   \<and> exTX ''a1'' 0 \<in> set (txs exBlock) \<and> \<not> isCoinbase (exTX ''a1'' 0)
   \<and> hasTX exPool (tx_hash (exTX ''a1'' 0))
   \<and> followedBy ''remove tx'' ''confirmed'' (tx_hash (exTX ''a1'' 0))
        [Emit ''remove orphan'' ''a1'', Emit ''remove tx'' ''a1'', Emit ''confirmed'' ''a1'']"
proof -
  have ev: "mp_events exPool = [Emit ''tx'' ''a1'', Emit ''add tx'' ''a1'']"
    by (simp add: ex_defs)
  have t: "exTX ''a1'' 0 \<in> set (txs exBlock)" "\<not> isCoinbase (exTX ''a1'' 0)"
    "hasTX exPool (tx_hash (exTX ''a1'' 0))"
    by (simp_all add: exBlock_def isCoinbase_def isNull_def hasTX_def ex_defs NULL_HASH_def)
  from ex_addBlock ex_addBlock_result obtain m'' where
    b: "addBlock (Suc 0) (exEnv True) exBlock exPool = Returned (None, m'')"
    and eb: "mp_events m'' = [Emit ''tx'' ''a1'', Emit ''add tx'' ''a1'', Emit ''remove orphan'' ''a1'',
            Emit ''remove tx'' ''a1'', Emit ''confirmed'' ''a1'']"
    by (auto simp add: returnedEvents_def split: outcome.splits)
  from events_order [of "Suc 0" "exEnv True" "exEntry (exFilledTX ''a1'')"
      "newMempool 300000000 True 1000 900" exPool exBlock None m''] ex_addUnchecked
  obtain new0 where "precededBy ''tx'' ''add tx'' new0"
    by blast
  from events_order [of "Suc 0" "exEnv True" "exEntry (exFilledTX ''a1'')"
      exPool exPool exBlock None m''] exPool_keysMatch b t
  obtain new where "mp_events m'' = mp_events exPool @ new"
    and p: "precededBy ''remove tx'' ''confirmed'' new"
    and f: "followedBy ''remove tx'' ''confirmed'' (tx_hash (exTX ''a1'' 0)) new"
    by blast
  with ev eb have "new = [Emit ''remove orphan'' ''a1'', Emit ''remove tx'' ''a1'', Emit ''confirmed'' ''a1'']"
    by simp
  with p f t ex_addUnchecked exPool_keysMatch ex_addBlock ev show ?thesis
    by (simp add: precededBy_Nil)
qed

text \<open>
  Counterexample to C9 as stated (for a confirmed transaction, \<open>confirmed\<close> is emitted
  before \<open>remove tx\<close>): the pool holds \<open>a1\<close>, and the block \<open>b1\<close> that holds \<open>a1\<close>
  is added. The events of the pool are then those of the admission followed by
  \<open>remove orphan\<close>, \<open>remove tx\<close> and, last, \<open>confirmed\<close>.
\<close>

theorem addBlock_confirmed_last_counterexample:
  "txs exBlock = [exTX ''a1'' 0]
   \<and> returnedEvents (addBlock (Suc 0) (exEnv True) exBlock exPool)
    = Some [Emit ''tx'' ''a1'', Emit ''add tx'' ''a1'', Emit ''remove orphan'' ''a1'',
            Emit ''remove tx'' ''a1'', Emit ''confirmed'' ''a1'']"
  by (simp add: returnedEvents_def exBlock_def ex_defs mp_defs rm_defs)











lemma addSpents_tx: "addSpents t i ins m = Returned m' \<Longrightarrow> mp_tx m' = mp_tx m"
  by (induction t i ins m rule: addSpents.induct) (auto simp add: Let_def split: if_splits)

lemma addCoins_tx: "addCoins env t i outs m = Returned m' \<Longrightarrow> mp_tx m' = mp_tx m"
  by (induction env t i outs m rule: addCoins.induct) (auto split: if_splits sum.splits)

lemma set_update_subset: "set (AList.update k v xs) \<subseteq> insert (k, v) (set xs)"
  by (induction xs) auto

lemma addUnchecked'_keys:
  assumes "addUnchecked' env entry m = Returned m'" and "keysMatch m"
  shows "keysMatch m'"
proof -
  from assms(1) have "mp_tx m' = AList.update (tx_hash (e_tx entry)) (entryToRaw entry) (mp_tx m)"
    by (auto simp add: addUnchecked'_def Let_def split: outcome.splits
        dest!: addSpents_tx addCoins_tx)
  moreover have "tx_hash (e_tx (entryToRaw entry)) = tx_hash (e_tx entry)"
    by (simp add: entryToRaw_def stripCoins_def)
  ultimately show ?thesis
    using assms(2) set_update_subset [of "tx_hash (e_tx entry)" "entryToRaw entry" "mp_tx m"]
    by (auto simp add: keysMatch_def)
qed

lemma resolveOrphansLoop_tx:
  "resolveOrphansLoop env t hs m = (res, m') \<Longrightarrow> mp_tx m' = mp_tx m"
  by (induction env t hs m arbitrary: res m' rule: resolveOrphansLoop.induct)
    (auto simp add: Let_def split: option.splits if_splits prod.splits)

lemma resolveOrphans_tx:
  "resolveOrphans env t m = (res, m') \<Longrightarrow> mp_tx m' = mp_tx m"
  by (auto simp add: resolveOrphans_def split: option.splits prod.splits
      dest: resolveOrphansLoop_tx)

lemma keysMatch_tx: "mp_tx m' = mp_tx m \<Longrightarrow> keysMatch m \<Longrightarrow> keysMatch m'"
  by (simp add: keysMatch_def)

lemma addResolved_keys:
  assumes self: "\<And>entry m m'. self entry m = Returned m' \<Longrightarrow> keysMatch m \<Longrightarrow> keysMatch m'"
  shows "addResolved fuel self env txl m = Returned m' \<Longrightarrow> keysMatch m \<Longrightarrow> keysMatch m'"
proof (induction txl arbitrary: m)
  case Nil
  then show ?case by simp
next
  case (Cons t rest)
  from Cons.prems obtain entry where en: "entryFromTX env t (chain_height (chain env)) = Inr entry"
    by (auto split: sum.splits)
  from Cons.prems en obtain r m1 where v: "verify fuel env entry m = Returned (r, m1)"
    by (auto split: outcome.splits)
  have k1: "keysMatch m1"
    using feesOnly_fields(2) [OF verify_feesOnly [OF v]] Cons.prems(2) by (rule keysMatch_tx)
  show ?case
  proof (cases r)
    case None
    with Cons.prems en v obtain m2 where s: "self entry m1 = Returned m2"
      and r: "addResolved fuel self env rest m2 = Returned m'"
      by (auto split: outcome.splits)
    from self [OF s k1] have "keysMatch m2" .
    with Cons.IH [OF r] show ?thesis .
  next
    case (Some f)
    show ?thesis
    proof (cases f)
      case (VerifyError c rs sc h)
      with Cons.prems en v Some have r: "addResolved fuel self env rest (emit ''bad orphan'' t m1) = Returned m'"
        by simp
      have "keysMatch (emit ''bad orphan'' t m1)" using k1 by (simp add: keysMatch_def emit_def)
      with Cons.IH [OF r] show ?thesis .
    next
      case (Err err)
      with Cons.prems en v Some have r: "addResolved fuel self env rest
          (m1\<lparr>mp_events := mp_events m1 @ [EmitError (Err err)]\<rparr>) = Returned m'"
        by simp
      have "keysMatch (m1\<lparr>mp_events := mp_events m1 @ [EmitError (Err err)]\<rparr>)"
        using k1 by (simp add: keysMatch_def)
      with Cons.IH [OF r] show ?thesis .
    qed
  qed
qed

lemma addUnchecked_keys:
  "addUnchecked fuel env entry m = Returned m' \<Longrightarrow> keysMatch m \<Longrightarrow> keysMatch m'"
proof (induction fuel arbitrary: entry m m')
  case 0
  then show ?case by simp
next
  case (Suc fuel)
  from Suc.prems(1) obtain m1 where a: "addUnchecked' env entry m = Returned m1"
    by (auto split: outcome.splits)
  from addUnchecked'_keys [OF a Suc.prems(2)] have k1: "keysMatch m1" .
  obtain resolved m4 where ro: "resolveOrphans env (e_tx entry)
      (emit ''add tx'' (e_tx entry) (emit ''tx'' (e_tx entry)
        (m1\<lparr>mp_spent := mp_spent m1 + int (length (inputs (e_tx entry))),
            mp_size := mp_size m1 + memUsage env m1 (e_tx entry),
            mp_total := mp_total m1 + 1\<rparr>))) = (resolved, m4)"
    by (cases "resolveOrphans env (e_tx entry)
      (emit ''add tx'' (e_tx entry) (emit ''tx'' (e_tx entry)
        (m1\<lparr>mp_spent := mp_spent m1 + int (length (inputs (e_tx entry))),
            mp_size := mp_size m1 + memUsage env m1 (e_tx entry),
            mp_total := mp_total m1 + 1\<rparr>)))") auto
  from resolveOrphans_tx [OF ro] have "mp_tx m4 = mp_tx m1" by (simp add: emit_def)
  with k1 have k4: "keysMatch m4" by (simp add: keysMatch_def)
  from Suc.prems(1) a ro have r: "addResolved fuel (addUnchecked fuel env) env resolved m4 = Returned m'"
    by (simp add: Let_def)
  show ?case
    by (rule addResolved_keys [OF _ r k4]) (rule Suc.IH)
qed









lemma memUsage_accurate_cong:
  "mp_accurateMemory m' = mp_accurateMemory m \<Longrightarrow> memUsage env m' t = memUsage env m t"
  by (simp add: memUsage_def)

















lemma spendersFollow_filter:
  "spendersFollow sp xs \<Longrightarrow> spendersFollow sp (filter P xs)"
  by (induction xs) auto
















lemma sum_list_middle:
  fixes f :: "'a \<Rightarrow> int"
  shows "sum_list (map f (ys @ zs)) = sum_list (map f (ys @ x # zs)) - f x"
  by simp















lemmas lim_defs = getRange_def rbtRange_def getSnapshot_def fillAllHistory_def fillHistory_def
  dbFillCoins_def removeOrphanTX_def removeUnchecked'_def removeSpenders_def getEntry_def

lemma ex_evicted:
  "returnedUsage (exEnv True)
     (addTX (Suc (Suc 0)) (exEnv True) (exTX ''a1'' 0) (newMempool 100 True 1000 900))
   = Some (Some (VerifyError ''insufficientfee'' ''mempool full'' 0 ''a1''), 0, 100, [])"
  by (simp add: returnedUsage_def ex_defs mp_defs lim_defs)










lemma ex_orphan_not_admitted:
  "\<not> admitted (Suc (Suc 0)) (exEnv True) exOverfull exOrphanTX"
  by (simp add: admitted_def reachesDoubleSpendCheck_def exOrphanTX_def exOverfull_def ex_defs mp_defs)



end
